theory Spec2Isabelle
  imports Complex_Main "HOL-Library.Sublist"
begin

section \<open>Erlang LS supervisor: values, exceptions and the observable history\<close>

text \<open>
  The development embeds \<^verbatim>\<open>src/solidlsp/language_servers/erlang_language_server.py\<close>.
  Durations are Python floats in the source; every duration the class computes with is a
  literal (45.0, 60.0, 240.0, ...) or a clock difference that is only compared with a
  literal, so seconds are modelled as rationals. Strings are byte lists; \<open>str.lower\<close> is
  modelled on the ASCII letters and leaves every other byte as it is.
\<close>

text \<open>Values that travel over the JSON-RPC transport (notification parameters, responses).\<close>

datatype json =
    JNull
  | JBool bool
  | JNum int
  | JStr string
  | JList "json list"
  | JDict "(string \<times> json) list"

text \<open>
  Instances of Python's \<open>Exception\<close> that the code distinguishes, and \<open>OtherException\<close> for
  every other instance of \<open>Exception\<close> (a transport failure, a request timeout, ...), named
  by its text. \<open>ZombieProcess\<close> is a subclass of \<open>psutil.NoSuchProcess\<close>;
  \<open>SubprocessError\<close> stands for \<open>subprocess.SubprocessError\<close> and its subclasses.
\<close>

datatype exn =
    RuntimeError string
  | AttributeError
  | TypeError
  | NoSuchProcess
  | ZombieProcess
  | AccessDenied
  | SubprocessError
  | FileNotFoundError
  | OtherException string

datatype level = DEBUG | INFO | WARNING | ERROR

text \<open>One constructor for each message the class hands to \<open>self.logger.log\<close>.\<close>

datatype log_msg =
    Lsp_window_logMessage json          \<comment> \<open>"LSP: window/logMessage: {message_text}"\<close>
  | Readiness_signal_detected string    \<comment> \<open>"Erlang LS readiness signal detected: {message_text}"\<close>
  | Potential_issue string              \<comment> \<open>"Erlang LS potential issue: {message_text}"\<close>
  | Initialization_progress_completed   \<comment> \<open>"Erlang LS initialization progress completed"\<close>
  | Starting_server_process             \<comment> \<open>"Starting Erlang LS server process"\<close>
  | Sending_initialize_request          \<comment> \<open>"Sending initialize request to Erlang LS"\<close>
  | Capabilities "string list"          \<comment> \<open>"Erlang LS capabilities: {list(...keys())}"\<close>
  | Initialization_completed            \<comment> \<open>"Erlang LS initialization completed successfully"\<close>
  | Initialization_failed exn           \<comment> \<open>"Erlang LS initialization failed: {e}"\<close>
  | Waiting_for_readiness rat string    \<comment> \<open>"Waiting up to {ready_timeout} seconds ... ({env_desc} environment)..."\<close>
  | Ready_and_available                 \<comment> \<open>"Erlang LS is ready and available for requests"\<close>
  | Allowing_settling rat               \<comment> \<open>"Allowing {settling_time} seconds for Erlang LS indexing to complete..."\<close>
  | Settling_complete                   \<comment> \<open>"Erlang LS settling period complete"\<close>
  | Readiness_timeout_reached rat       \<comment> \<open>"Erlang LS readiness timeout reached after {ready_timeout}s, proceeding anyway (common in CI)"\<close>
  | Allowing_basic_initialization rat   \<comment> \<open>"Allowing {basic_settling_time} seconds for basic Erlang LS initialization..."\<close>
  | Basic_initialization_complete       \<comment> \<open>"Basic Erlang LS initialization period complete"\<close>
  | Cpu_usage nat rat                   \<comment> \<open>"Erlang LS process {pid} CPU usage: {cpu_percent}%"\<close>
  | Force_killing nat                   \<comment> \<open>"Force killing potentially deadlocked Erlang LS process {pid}"\<close>
  | Error_in_force_kill_check exn       \<comment> \<open>"Error in force kill check: {e}"\<close>
  | Slow_containing_symbol rat          \<comment> \<open>"Slow Erlang LS containing symbol request: {elapsed:.1f}s"\<close>
  | Containing_symbol_failed rat exn    \<comment> \<open>"Erlang LS containing symbol request failed after {elapsed:.1f}s: {e}"\<close>
  | Slow_referencing_symbols rat        \<comment> \<open>"Slow Erlang LS referencing symbols request: {elapsed:.1f}s"\<close>
  | Referencing_symbols_failed rat exn  \<comment> \<open>"Erlang LS referencing symbols request failed after {elapsed:.1f}s: {e}"\<close>

text \<open>
  What the supervisor does to the outside world and to its two events, in the order in
  which it does it.
\<close>

datatype effect =
    Log log_msg level                   \<comment> \<open>\<open>self.logger.log(msg, level)\<close>\<close>
  | Server_start                        \<comment> \<open>\<open>self.server.start()\<close>\<close>
  | Send_initialize json                \<comment> \<open>\<open>self.server.send.initialize(initialize_params)\<close>\<close>
  | Notify_initialized                  \<comment> \<open>\<open>self.server.notify.initialized({})\<close>\<close>
  | Completions_available_set           \<comment> \<open>\<open>self.completions_available.set()\<close>\<close>
  | Server_ready_set                    \<comment> \<open>\<open>self.server_ready.set()\<close>\<close>
  | Server_ready_wait rat rat bool      \<comment> \<open>\<open>self.server_ready.wait(timeout)\<close>: the timeout, the time waited, the result\<close>
  | Sleep rat                           \<comment> \<open>\<open>time.sleep(seconds)\<close>\<close>
  | Cpu_percent nat                     \<comment> \<open>\<open>process.cpu_percent(interval=0.1)\<close>\<close>
  | Terminate nat                       \<comment> \<open>\<open>process.terminate()\<close>\<close>
  | Kill nat                            \<comment> \<open>\<open>process.kill()\<close>\<close>

text \<open>
  The fields of the instance. \<open>request_count\<close>, \<open>timeout_count\<close> and \<open>last_timeout_time\<close>
  are the source's \<open>_request_count\<close>, \<open>_timeout_count\<close> and \<open>_last_timeout_time\<close>;
  \<open>request_timeout\<close> is what \<open>set_request_timeout\<close> stored; \<open>cmd\<close> is the command of the
  \<open>ProcessLaunchInfo\<close>; \<open>effects\<close> is the history, oldest first.
\<close>

record state =
  cmd :: "string list"
  repository_root_path :: string
  server_ready :: bool
  completions_available :: bool
  request_timeout :: "rat option"
  request_count :: int
  timeout_count :: int
  last_timeout_time :: rat
  effects :: "effect list"

definition emit :: "effect \<Rightarrow> state \<Rightarrow> state" where
  "emit e st = st\<lparr>effects := effects st @ [e]\<rparr>"

definition logger_log :: "log_msg \<Rightarrow> level \<Rightarrow> state \<Rightarrow> state" where
  "logger_log m l st = emit (Log m l) st"

definition server_ready_set :: "state \<Rightarrow> state" where
  "server_ready_set st = emit Server_ready_set (st\<lparr>server_ready := True\<rparr>)"

definition completions_available_set :: "state \<Rightarrow> state" where
  "completions_available_set st = emit Completions_available_set (st\<lparr>completions_available := True\<rparr>)"

definition time_sleep :: "rat \<Rightarrow> state \<Rightarrow> state" where
  "time_sleep d st = emit (Sleep d) st"

subsection \<open>The Python operations the handlers use\<close>

definition lower_char :: "char \<Rightarrow> char" where
  "lower_char c =
     (let n = (of_char c :: nat) in if 65 \<le> n \<and> n \<le> 90 then char_of (n + 32) else c)"

definition lower :: "string \<Rightarrow> string" where
  "lower s = map lower_char s"

text \<open>\<open>a in b\<close> on two strings: \<open>a\<close> occurs in \<open>b\<close> as a contiguous run.\<close>

definition str_in :: "string \<Rightarrow> string \<Rightarrow> bool" where
  "str_in a b = sublist a b"

text \<open>\<open>d.get(k, default)\<close>: only a dict has \<open>get\<close>.\<close>

definition dict_get :: "json \<Rightarrow> string \<Rightarrow> json \<Rightarrow> exn + json" where
  "dict_get d k dflt =
     (case d of
        JDict kv \<Rightarrow> Inr (case map_of kv k of Some v \<Rightarrow> v | None \<Rightarrow> dflt)
      | _ \<Rightarrow> Inl AttributeError)"

section \<open>The notification handlers of \<open>_start_server\<close>\<close>

definition readiness_signals :: "string list" where
  "readiness_signals =
     [''Started Erlang LS'', ''server started'', ''initialized'',
      ''ready to serve requests'', ''compilation finished'', ''indexing complete'']"

text \<open>The \<open>for signal in readiness_signals\<close> loop, which stops at the first match.\<close>

fun scan_readiness_signals :: "string list \<Rightarrow> string \<Rightarrow> string \<Rightarrow> state \<Rightarrow> state" where
  "scan_readiness_signals [] message_text message_lower st = st"
| "scan_readiness_signals (signal # rest) message_text message_lower st =
     (if str_in (lower signal) message_lower
      then server_ready_set (logger_log (Readiness_signal_detected message_text) INFO st)
      else scan_readiness_signals rest message_text message_lower st)"

text \<open>
  A handler returns the exception it raised, if any, and the state it left. The
  exception goes to the transport's dispatch thread, not to the supervisor.
\<close>

definition window_log_message :: "json \<Rightarrow> state \<Rightarrow> exn option \<times> state" where
  "window_log_message msg st =
     (case dict_get msg ''message'' (JStr '''') of
        Inl e \<Rightarrow> (Some e, st)
      | Inr message_text \<Rightarrow>
          (let st1 = logger_log (Lsp_window_logMessage message_text) INFO st in
           case message_text of
             JStr text \<Rightarrow>
               (let message_lower = lower text;
                    st2 = scan_readiness_signals readiness_signals text message_lower st1
                in if list_ex (\<lambda>word. str_in word message_lower)
                        [''error'', ''failed'', ''timeout'', ''crash'']
                   then (None, logger_log (Potential_issue text) WARNING st2)
                   else (None, st2))
           | _ \<Rightarrow> (Some AttributeError, st1)))"

text \<open>
  In both handlers the last case is \<open>.lower()\<close> called on a value that is not a string.
\<close>

definition check_server_ready :: "json \<Rightarrow> state \<Rightarrow> exn option \<times> state" where
  "check_server_ready params st =
     (case dict_get params ''value'' (JDict []) of
        Inl e \<Rightarrow> (Some e, st)
      | Inr v \<Rightarrow>
          (case dict_get v ''kind'' JNull of
             Inl e \<Rightarrow> (Some e, st)
           | Inr kind \<Rightarrow>
               if kind = JStr ''end'' then
                 (case dict_get v ''message'' (JStr '''') of
                    Inl e \<Rightarrow> (Some e, st)
                  | Inr (JStr message) \<Rightarrow>
                      if list_ex (\<lambda>word. str_in word (lower message))
                           [''initialized'', ''ready'', ''complete'']
                      then (let st1 = logger_log Initialization_progress_completed INFO st
                            in if \<not> server_ready st1 then (None, server_ready_set st1)
                               else (None, st1))
                      else (None, st)
                  | Inr _ \<Rightarrow> (Some AttributeError, st))
               else (None, st)))"

definition register_capability_handler :: "json \<Rightarrow> state \<Rightarrow> exn option \<times> state" where
  "register_capability_handler params st = (None, st)"

definition do_nothing :: "json \<Rightarrow> state \<Rightarrow> exn option \<times> state" where
  "do_nothing params st = (None, st)"

text \<open>
  The handlers as \<open>_start_server\<close> registers them with \<open>on_request\<close> and \<open>on_notification\<close>.
  A method with no registered handler does not reach this class.
\<close>

type_synonym notification = "string \<times> json"

definition dispatch :: "notification \<Rightarrow> state \<Rightarrow> exn option \<times> state" where
  "dispatch n st =
     (let method = fst n; params = snd n in
      if method = ''client/registerCapability'' then register_capability_handler params st
      else if method = ''window/logMessage'' then window_log_message params st
      else if method = ''$/progress'' then check_server_ready params st
      else if method = ''window/workDoneProgress/create'' then do_nothing params st
      else if method = ''$/workDoneProgress'' then do_nothing params st
      else if method = ''textDocument/publishDiagnostics'' then do_nothing params st
      else (None, st))"

definition deliver :: "notification \<Rightarrow> state \<Rightarrow> state" where
  "deliver n st = snd (dispatch n st)"

fun deliver_all :: "notification list \<Rightarrow> state \<Rightarrow> state" where
  "deliver_all [] st = st"
| "deliver_all (n # ns) st = deliver_all ns (deliver n st)"

section \<open>Construction: \<open>__init__\<close>\<close>

text \<open>
  The environment the class reads: \<open>os.getenv\<close>, and \<open>os.uname().sysname\<close>, which is
  \<open>None\<close> on a platform where \<open>os\<close> has no \<open>uname\<close>.
\<close>

record env =
  getenv :: "string \<Rightarrow> string option"
  uname_sysname :: "string option"

definition is_ci :: "env \<Rightarrow> bool" where
  "is_ci e = (getenv e ''CI'' = Some ''true'' \<or> getenv e ''GITHUB_ACTIONS'' = Some ''true'')"

definition is_macos :: "env \<Rightarrow> bool" where
  "is_macos e = (case uname_sysname e of Some sysname \<Rightarrow> sysname = ''Darwin'' | None \<Rightarrow> False)"

text \<open>
  \<open>_check_erlang_installation\<close>, given what \<open>subprocess.run(["erl", "-version"], ...)\<close> did:
  the return code, or the exception it raised.
\<close>

definition check_erlang_installation :: "exn + int \<Rightarrow> exn + bool" where
  "check_erlang_installation run =
     (case run of
        Inr returncode \<Rightarrow> Inr (returncode = 0)
      | Inl SubprocessError \<Rightarrow> Inr False
      | Inl FileNotFoundError \<Rightarrow> Inr False
      | Inl e \<Rightarrow> Inl e)"

definition request_timeout_for :: "env \<Rightarrow> rat" where
  "request_timeout_for e = (if is_ci e then 45 else 60)"

text \<open>
  \<open>__init__\<close>, given the environment, the result of \<open>shutil.which("erlang_ls")\<close>, the
  outcome of the \<open>erl -version\<close> run and the repository root. The base class's
  \<open>__init__\<close> is not part of the file; it is taken to return, leaving the
  \<open>completions_available\<close> event clear and the history empty.
\<close>

definition init :: "env \<Rightarrow> string option \<Rightarrow> exn + int \<Rightarrow> string \<Rightarrow> exn + state" where
  "init e which run root_path =
     (case which of
        None \<Rightarrow> Inl (RuntimeError ''Erlang LS not found. Install from: https://github.com/erlang-ls/erlang_ls'')
      | Some erlang_ls_path \<Rightarrow>
          if erlang_ls_path = [] then
            Inl (RuntimeError ''Erlang LS not found. Install from: https://github.com/erlang-ls/erlang_ls'')
          else
            (case check_erlang_installation run of
               Inl ex \<Rightarrow> Inl ex
             | Inr False \<Rightarrow>
                 Inl (RuntimeError ''Erlang/OTP not found. Install from: https://www.erlang.org/downloads'')
             | Inr True \<Rightarrow>
                 Inr \<lparr>cmd = [erlang_ls_path, ''--transport'', ''stdio'']
                             @ (if is_ci e then [''--log-level'', ''info''] else []),
                      repository_root_path = root_path,
                      server_ready = False,
                      completions_available = False,
                      request_timeout = Some (request_timeout_for e),
                      request_count = 0,
                      timeout_count = 0,
                      last_timeout_time = 0,
                      effects = []\<rparr>))"

section \<open>Startup: \<open>_start_server\<close>\<close>

text \<open>
  What the transport does when \<open>_start_server\<close> calls it: \<open>self.server.start()\<close> may raise,
  \<open>self.server.send.initialize\<close> returns a response or raises, and
  \<open>self.server.notify.initialized\<close> may raise.
\<close>

record transport =
  start_raises :: "exn option"
  initialize_returns :: "exn + json"
  initialized_raises :: "exn option"

definition initialize_params :: "string \<Rightarrow> json" where
  "initialize_params root_path =
     JDict [(''processId'', JNull),
            (''rootPath'', JStr root_path),
            (''rootUri'', JStr (''file://'' @ root_path)),
            (''capabilities'',
              JDict [(''textDocument'',
                JDict [(''synchronization'', JDict [(''didSave'', JBool True)]),
                       (''completion'', JDict [(''dynamicRegistration'', JBool True)]),
                       (''definition'', JDict [(''dynamicRegistration'', JBool True)]),
                       (''references'', JDict [(''dynamicRegistration'', JBool True)]),
                       (''documentSymbol'', JDict [(''dynamicRegistration'', JBool True)]),
                       (''hover'', JDict [(''dynamicRegistration'', JBool True)])])])]"

text \<open>\<open>"capabilities" in init_response\<close>, for whatever value the transport returned.\<close>

definition has_capabilities :: "json \<Rightarrow> exn + bool" where
  "has_capabilities init_response =
     (case init_response of
        JDict kv \<Rightarrow> Inr (map_of kv ''capabilities'' \<noteq> None)
      | JList xs \<Rightarrow> Inr (JStr ''capabilities'' \<in> set xs)
      | JStr s \<Rightarrow> Inr (str_in ''capabilities'' s)
      | _ \<Rightarrow> Inl TypeError)"

text \<open>\<open>list(init_response['capabilities'].keys())\<close>.\<close>

definition capability_keys :: "json \<Rightarrow> exn + string list" where
  "capability_keys init_response =
     (case init_response of
        JDict kv \<Rightarrow>
          (case map_of kv ''capabilities'' of
             Some (JDict caps) \<Rightarrow> Inr (map fst caps)
           | Some _ \<Rightarrow> Inl AttributeError
           | None \<Rightarrow> Inl (OtherException ''KeyError''))
      | _ \<Rightarrow> Inl TypeError)"

text \<open>
  The statement \<open>if "capabilities" in init_response: self.logger.log(...)\<close>: the exception
  it raises, if any, and the state.
\<close>

definition log_capabilities :: "json \<Rightarrow> state \<Rightarrow> exn option \<times> state" where
  "log_capabilities init_response st =
     (case has_capabilities init_response of
        Inl e \<Rightarrow> (Some e, st)
      | Inr False \<Rightarrow> (None, st)
      | Inr True \<Rightarrow>
          (case capability_keys init_response of
             Inl e \<Rightarrow> (Some e, st)
           | Inr keys \<Rightarrow> (None, logger_log (Capabilities keys) INFO st)))"

text \<open>The body of the \<open>try\<close> around the initialize call.\<close>

definition handshake_try :: "transport \<Rightarrow> state \<Rightarrow> exn option \<times> state" where
  "handshake_try tr st =
     (let st1 = emit (Send_initialize (initialize_params (repository_root_path st))) st in
      case initialize_returns tr of
        Inl e \<Rightarrow> (Some e, st1)
      | Inr init_response \<Rightarrow>
          (case log_capabilities init_response st1 of
             (Some e, st2) \<Rightarrow> (Some e, st2)
           | (None, st2) \<Rightarrow>
               (let st3 = emit Notify_initialized st2 in
                case initialized_raises tr of
                  Some e \<Rightarrow> (Some e, st3)
                | None \<Rightarrow>
                    (None, logger_log Initialization_completed INFO
                             (completions_available_set st3)))))"

text \<open>
  The \<open>try\<close> with its \<open>except Exception as e\<close>, which logs, sets the event and re-raises.
  The first component is the exception that leaves the statement.
\<close>

definition handshake :: "transport \<Rightarrow> state \<Rightarrow> exn option \<times> state" where
  "handshake tr st =
     (case handshake_try tr (logger_log Sending_initialize_request INFO st) of
        (None, st1) \<Rightarrow> (None, st1)
      | (Some e, st1) \<Rightarrow>
          (Some e, completions_available_set (logger_log (Initialization_failed e) ERROR st1)))"

definition ready_timeout_for :: "env \<Rightarrow> rat \<times> string" where
  "ready_timeout_for e =
     (if is_ci e \<and> is_macos e then (240, ''macOS CI'')
      else if is_ci e then (180, ''CI'')
      else (60, ''local''))"

text \<open>
  \<open>self.server_ready.wait(timeout=ready_timeout)\<close>. While the startup thread waits, the
  transport's thread delivers notifications to the handlers. The schedule lists them in
  delivery order, each with its arrival time in seconds counted from the start of the
  wait (zero or less: it arrived earlier, during the handshake). The wait returns \<open>True\<close>
  as soon as the event is set, and \<open>False\<close> when the timeout has passed with the event
  still clear; a notification arriving strictly before the timeout is delivered before
  the wait gives up. The result is the flag, the time waited, the notifications not yet
  delivered, and the state.
\<close>

fun server_ready_wait ::
  "rat \<Rightarrow> rat \<Rightarrow> (rat \<times> notification) list \<Rightarrow> state
     \<Rightarrow> bool \<times> rat \<times> (rat \<times> notification) list \<times> state" where
  "server_ready_wait timeout waited [] st =
     (if server_ready st then (True, waited, [], st) else (False, timeout, [], st))"
| "server_ready_wait timeout waited ((t, n) # rest) st =
     (if server_ready st then (True, waited, (t, n) # rest, st)
      else if t < timeout then server_ready_wait timeout (max waited t) rest (deliver n st)
      else (False, timeout, (t, n) # rest, st))"

text \<open>The two settling delays: after a signalled readiness, and after a forced one.\<close>

definition settling_time :: "env \<Rightarrow> rat" where
  "settling_time e = (if is_ci e then 15 else 5)"

definition basic_settling_time :: "env \<Rightarrow> rat" where
  "basic_settling_time e = (if is_ci e then 20 else 10)"

text \<open>The rest of \<open>_start_server\<close>, from the selection of the readiness timeout on.\<close>

definition await_readiness ::
  "env \<Rightarrow> (rat \<times> notification) list \<Rightarrow> state \<Rightarrow> (rat \<times> notification) list \<times> state" where
  "await_readiness e sched st =
     (let ready_timeout = fst (ready_timeout_for e);
          env_desc = snd (ready_timeout_for e);
          st1 = logger_log (Waiting_for_readiness ready_timeout env_desc) INFO st
      in case server_ready_wait ready_timeout 0 sched st1 of
           (True, waited, pending, st2) \<Rightarrow>
             (let st3 = logger_log Ready_and_available INFO
                          (emit (Server_ready_wait ready_timeout waited True) st2);
                  st4 = logger_log (Allowing_settling (settling_time e)) INFO st3;
                  st5 = time_sleep (settling_time e) st4
              in (pending, logger_log Settling_complete INFO st5))
         | (False, waited, pending, st2) \<Rightarrow>
             (let st3 = logger_log (Readiness_timeout_reached ready_timeout) WARNING
                          (emit (Server_ready_wait ready_timeout waited False) st2);
                  st4 = server_ready_set st3;
                  st5 = logger_log (Allowing_basic_initialization (basic_settling_time e)) INFO st4;
                  st6 = time_sleep (basic_settling_time e) st5
              in (pending, logger_log Basic_initialization_complete INFO st6)))"

text \<open>
  \<open>_start_server\<close>: the exception that reaches the caller of startup, the notifications
  the transport's thread has still to deliver, and the state. The handlers are
  registered first (\<open>dispatch\<close>); the process is started; the handshake runs; the
  readiness wait and the settling delay follow only when the handshake raised nothing.
\<close>

definition start_server ::
  "env \<Rightarrow> transport \<Rightarrow> (rat \<times> notification) list \<Rightarrow> state
     \<Rightarrow> exn option \<times> (rat \<times> notification) list \<times> state" where
  "start_server e tr sched st =
     (let st1 = emit Server_start (logger_log Starting_server_process INFO st) in
      case start_raises tr of
        Some ex \<Rightarrow> (Some ex, sched, st1)
      | None \<Rightarrow>
          (case handshake tr st1 of
             (Some ex, st2) \<Rightarrow> (Some ex, sched, st2)
           | (None, st2) \<Rightarrow>
               (case await_readiness e sched st2 of
                  (pending, st3) \<Rightarrow> (None, pending, st3))))"

section \<open>The request wrappers\<close>

text \<open>
  \<open>request_containing_symbol\<close> and \<open>request_referencing_symbols\<close> wrap the base class's
  methods, which are not part of the file. The call to \<open>super()\<close> is given by what it
  did: the time between the two readings of \<open>time.time()\<close>, and the result it returned
  or the exception it raised. The wrapper returns that result or re-raises that exception.
\<close>

definition request_containing_symbol :: "rat \<times> (exn + 'r) \<Rightarrow> state \<Rightarrow> (exn + 'r) \<times> state" where
  "request_containing_symbol super_call st =
     (let elapsed = fst super_call in
      case snd super_call of
        Inr result \<Rightarrow>
          (Inr result,
           if elapsed > 10 then logger_log (Slow_containing_symbol elapsed) INFO st else st)
      | Inl e \<Rightarrow> (Inl e, logger_log (Containing_symbol_failed elapsed e) WARNING st))"

definition request_referencing_symbols :: "rat \<times> (exn + 'r) \<Rightarrow> state \<Rightarrow> (exn + 'r) \<times> state" where
  "request_referencing_symbols super_call st =
     (let elapsed = fst super_call in
      case snd super_call of
        Inr result \<Rightarrow>
          (Inr result,
           if elapsed > 10 then logger_log (Slow_referencing_symbols elapsed) INFO st else st)
      | Inl e \<Rightarrow> (Inl e, logger_log (Referencing_symbols_failed elapsed e) WARNING st))"

section \<open>The watchdog: \<open>_force_kill_if_stuck\<close>\<close>

text \<open>
  What the process primitives do when they are called: the pid of \<open>self.server.process\<close>
  (\<open>None\<close> when the attribute is missing or falsy), and for each \<open>psutil\<close> call its result
  or the exception it raises.
\<close>

record watchdog_env =
  server_process :: "nat option"
  pid_exists :: "exn + bool"
  process_lookup :: "exn option"
  cpu_percent :: "exn + rat"
  terminate_raises :: "exn option"
  is_running :: "exn + bool"
  kill_raises :: "exn option"

text \<open>\<open>except psutil.NoSuchProcess\<close> catches the class and its subclass.\<close>

definition is_NoSuchProcess :: "exn \<Rightarrow> bool" where
  "is_NoSuchProcess e = (e = NoSuchProcess \<or> e = ZombieProcess)"

text \<open>The body of the inner \<open>try\<close>.\<close>

definition terminate_then_kill :: "watchdog_env \<Rightarrow> nat \<Rightarrow> state \<Rightarrow> exn option \<times> state" where
  "terminate_then_kill w pid st =
     (let st1 = emit (Terminate pid) st in
      case terminate_raises w of
        Some e \<Rightarrow> (Some e, st1)
      | None \<Rightarrow>
          (let st2 = time_sleep 2 st1 in
           case is_running w of
             Inl e \<Rightarrow> (Some e, st2)
           | Inr False \<Rightarrow> (None, st2)
           | Inr True \<Rightarrow> (kill_raises w, emit (Kill pid) st2)))"

text \<open>The body of the outer \<open>try\<close>, with the inner \<open>except psutil.NoSuchProcess: pass\<close>.\<close>

definition force_kill_body :: "watchdog_env \<Rightarrow> state \<Rightarrow> exn option \<times> state" where
  "force_kill_body w st =
     (case server_process w of
        None \<Rightarrow> (None, st)
      | Some pid \<Rightarrow>
          (case pid_exists w of
             Inl e \<Rightarrow> (Some e, st)
           | Inr False \<Rightarrow> (None, st)
           | Inr True \<Rightarrow>
               (case process_lookup w of
                  Some e \<Rightarrow> (Some e, st)
                | None \<Rightarrow>
                    (let st1 = emit (Cpu_percent pid) st in
                     case cpu_percent w of
                       Inl e \<Rightarrow> (Some e, st1)
                     | Inr cpu \<Rightarrow>
                         (let st2 = logger_log (Cpu_usage pid cpu) INFO st1 in
                          if cpu < 1 then
                            (let st3 = logger_log (Force_killing pid) WARNING st2 in
                             case terminate_then_kill w pid st3 of
                               (None, st4) \<Rightarrow> (None, st4)
                             | (Some e, st4) \<Rightarrow>
                                 if is_NoSuchProcess e then (None, st4) else (Some e, st4))
                          else (None, st2))))))"

text \<open>
  \<open>_force_kill_if_stuck\<close>: the first component is the exception that reaches the caller.
\<close>

definition force_kill_if_stuck :: "watchdog_env \<Rightarrow> state \<Rightarrow> exn option \<times> state" where
  "force_kill_if_stuck w st =
     (case force_kill_body w st of
        (None, st1) \<Rightarrow> (None, st1)
      | (Some e, st1) \<Rightarrow> (None, logger_log (Error_in_force_kill_check e) DEBUG st1))"

section \<open>Observations on runs\<close>

text \<open>
  The states the supervisor goes through while the transport's thread delivers a list of
  notifications: the first is the state before any delivery, the last the state after
  all of them.
\<close>

fun deliver_trace :: "notification list \<Rightarrow> state \<Rightarrow> state list" where
  "deliver_trace [] st = [st]"
| "deliver_trace (n # ns) st = st # deliver_trace ns (deliver n st)"

text \<open>
  In a sequence of readings of a flag, \<open>rises\<close> counts the steps from clear to set and
  \<open>falls\<close> the steps from set to clear.
\<close>

fun rises :: "bool list \<Rightarrow> nat" where
  "rises (a # b # bs) = (if \<not> a \<and> b then 1 else 0) + rises (b # bs)"
| "rises bs = 0"

fun falls :: "bool list \<Rightarrow> nat" where
  "falls (a # b # bs) = (if a \<and> \<not> b then 1 else 0) + falls (b # bs)"
| "falls bs = 0"

text \<open>What a step added to the history.\<close>

definition new_effects :: "state \<Rightarrow> state \<Rightarrow> effect list" where
  "new_effects st st' = drop (length (effects st)) (effects st')"

text \<open>The effects a notification handler can have: a log line, or setting \<open>server_ready\<close>.\<close>

definition handler_effect :: "effect \<Rightarrow> bool" where
  "handler_effect x = (case x of Log m l \<Rightarrow> True | Server_ready_set \<Rightarrow> True | _ \<Rightarrow> False)"

text \<open>
  \<open>extends st st'\<close>: \<open>st'\<close> comes from \<open>st\<close> by handler effects only. The history grows by log
  lines and \<open>server_ready.set()\<close> calls, \<open>server_ready\<close> can only go from clear to set, and
  it is still clear only if no \<open>set()\<close> call was added; every other field is as it was.
\<close>

definition extends :: "state \<Rightarrow> state \<Rightarrow> bool" where
  "extends st st' =
     (cmd st' = cmd st \<and> repository_root_path st' = repository_root_path st \<and>
      completions_available st' = completions_available st \<and>
      request_timeout st' = request_timeout st \<and> request_count st' = request_count st \<and>
      timeout_count st' = timeout_count st \<and> last_timeout_time st' = last_timeout_time st \<and>
      (server_ready st \<longrightarrow> server_ready st') \<and>
      (\<exists>xs. effects st' = effects st @ xs \<and> list_all handler_effect xs \<and>
            (\<not> server_ready st' \<longrightarrow> Server_ready_set \<notin> set xs)))"

text \<open>
  \<open>quiet st st'\<close>: \<open>st'\<close> comes from \<open>st\<close> by steps that leave \<open>server_ready\<close> alone. The history
  grows without a \<open>server_ready.set()\<close> call or a wait on the event, \<open>completions_available\<close>
  can only go from clear to set, and every other field is as it was.
\<close>

definition quiet_effect :: "effect \<Rightarrow> bool" where
  "quiet_effect x =
     (case x of Server_ready_set \<Rightarrow> False | Server_ready_wait t w b \<Rightarrow> False | _ \<Rightarrow> True)"

definition quiet :: "state \<Rightarrow> state \<Rightarrow> bool" where
  "quiet st st' =
     (cmd st' = cmd st \<and> repository_root_path st' = repository_root_path st \<and>
      server_ready st' = server_ready st \<and>
      request_timeout st' = request_timeout st \<and> request_count st' = request_count st \<and>
      timeout_count st' = timeout_count st \<and> last_timeout_time st' = last_timeout_time st \<and>
      (completions_available st \<longrightarrow> completions_available st') \<and>
      (\<exists>xs. effects st' = effects st @ xs \<and> list_all quiet_effect xs))"

section \<open>Concrete environments, transports and states\<close>

definition local_env :: env where
  "local_env = \<lparr>getenv = (\<lambda>name. None), uname_sysname = Some ''Linux''\<rparr>"

definition ci_env :: env where
  "ci_env = \<lparr>getenv = [''CI'' \<mapsto> ''true''], uname_sysname = Some ''Linux''\<rparr>"

definition macos_ci_env :: env where
  "macos_ci_env = \<lparr>getenv = [''GITHUB_ACTIONS'' \<mapsto> ''true''], uname_sysname = Some ''Darwin''\<rparr>"

text \<open>The state \<open>__init__\<close> builds in the local environment for the repository \<open>/repo\<close>.\<close>

definition fresh_state :: state where
  "fresh_state =
     \<lparr>cmd = [''/usr/bin/erlang_ls'', ''--transport'', ''stdio''],
      repository_root_path = ''/repo'',
      server_ready = False,
      completions_available = False,
      request_timeout = Some 60,
      request_count = 0,
      timeout_count = 0,
      last_timeout_time = 0,
      effects = []\<rparr>"

text \<open>A transport whose handshake succeeds, one that raises on \<open>initialize\<close>.\<close>

definition good_transport :: transport where
  "good_transport =
     \<lparr>start_raises = None,
      initialize_returns = Inr (JDict [(''capabilities'', JDict [(''hoverProvider'', JBool True)])]),
      initialized_raises = None\<rparr>"

definition failing_transport :: transport where
  "failing_transport =
     \<lparr>start_raises = None,
      initialize_returns = Inl (OtherException ''initialize failed''),
      initialized_raises = None\<rparr>"

definition log_message :: "string \<Rightarrow> notification" where
  "log_message text = (''window/logMessage'', JDict [(''type'', JNum 3), (''message'', JStr text)])"

definition progress_end :: "string \<Rightarrow> notification" where
  "progress_end text =
     (''$/progress'',
      JDict [(''token'', JStr ''init''),
             (''value'', JDict [(''kind'', JStr ''end''), (''message'', JStr text)])])"

text \<open>A process with pid 4242 that idles at 0.2% CPU and survives \<open>terminate()\<close>.\<close>

definition stuck_process :: watchdog_env where
  "stuck_process =
     \<lparr>server_process = Some 4242,
      pid_exists = Inr True,
      process_lookup = None,
      cpu_percent = Inr (1 / 5),
      terminate_raises = None,
      is_running = Inr True,
      kill_raises = None\<rparr>"

section \<open>The fields each operation touches\<close>

lemma emit_simps [simp]:
  "effects (emit x st) = effects st @ [x]"
  "server_ready (emit x st) = server_ready st"
  "completions_available (emit x st) = completions_available st"
  "request_timeout (emit x st) = request_timeout st"
  "cmd (emit x st) = cmd st"
  "request_count (emit x st) = request_count st"
  "timeout_count (emit x st) = timeout_count st"
  "last_timeout_time (emit x st) = last_timeout_time st"
  "repository_root_path (emit x st) = repository_root_path st"
  by (simp_all add: emit_def)

lemma logger_log_simps [simp]:
  "effects (logger_log m l st) = effects st @ [Log m l]"
  "server_ready (logger_log m l st) = server_ready st"
  "completions_available (logger_log m l st) = completions_available st"
  "request_timeout (logger_log m l st) = request_timeout st"
  "cmd (logger_log m l st) = cmd st"
  "request_count (logger_log m l st) = request_count st"
  "timeout_count (logger_log m l st) = timeout_count st"
  "last_timeout_time (logger_log m l st) = last_timeout_time st"
  "repository_root_path (logger_log m l st) = repository_root_path st"
  by (simp_all add: logger_log_def)

lemma server_ready_set_simps [simp]:
  "effects (server_ready_set st) = effects st @ [Server_ready_set]"
  "server_ready (server_ready_set st)"
  "completions_available (server_ready_set st) = completions_available st"
  "request_timeout (server_ready_set st) = request_timeout st"
  "cmd (server_ready_set st) = cmd st"
  "repository_root_path (server_ready_set st) = repository_root_path st"
  "request_count (server_ready_set st) = request_count st"
  "timeout_count (server_ready_set st) = timeout_count st"
  "last_timeout_time (server_ready_set st) = last_timeout_time st"
  by (simp_all add: server_ready_set_def)

lemma completions_available_set_simps [simp]:
  "effects (completions_available_set st) = effects st @ [Completions_available_set]"
  "server_ready (completions_available_set st) = server_ready st"
  "completions_available (completions_available_set st)"
  "request_timeout (completions_available_set st) = request_timeout st"
  "cmd (completions_available_set st) = cmd st"
  "repository_root_path (completions_available_set st) = repository_root_path st"
  "request_count (completions_available_set st) = request_count st"
  "timeout_count (completions_available_set st) = timeout_count st"
  "last_timeout_time (completions_available_set st) = last_timeout_time st"
  by (simp_all add: completions_available_set_def)

lemma time_sleep_simps [simp]:
  "effects (time_sleep d st) = effects st @ [Sleep d]"
  "server_ready (time_sleep d st) = server_ready st"
  "completions_available (time_sleep d st) = completions_available st"
  "request_timeout (time_sleep d st) = request_timeout st"
  "cmd (time_sleep d st) = cmd st"
  "repository_root_path (time_sleep d st) = repository_root_path st"
  "request_count (time_sleep d st) = request_count st"
  "timeout_count (time_sleep d st) = timeout_count st"
  "last_timeout_time (time_sleep d st) = last_timeout_time st"
  by (simp_all add: time_sleep_def)

section \<open>What the handlers do\<close>

lemma scan_readiness_signals_eq:
  "scan_readiness_signals sigs text ml st =
     (if list_ex (\<lambda>signal. str_in (lower signal) ml) sigs
      then server_ready_set (logger_log (Readiness_signal_detected text) INFO st)
      else st)"
  by (induction sigs) simp_all

lemma window_log_message_str:
  "window_log_message (JDict kv) st =
     (case map_of kv ''message'' of
        None \<Rightarrow> (None, logger_log (Lsp_window_logMessage (JStr [])) INFO st)
      | Some (JStr text) \<Rightarrow>
          (let st1 = logger_log (Lsp_window_logMessage (JStr text)) INFO st;
               st2 = (if list_ex (\<lambda>signal. str_in (lower signal) (lower text)) readiness_signals
                      then server_ready_set (logger_log (Readiness_signal_detected text) INFO st1)
                      else st1)
           in if list_ex (\<lambda>word. str_in word (lower text)) [''error'', ''failed'', ''timeout'', ''crash'']
              then (None, logger_log (Potential_issue text) WARNING st2)
              else (None, st2))
      | Some v \<Rightarrow> (Some AttributeError, logger_log (Lsp_window_logMessage v) INFO st))"
  by (auto simp: window_log_message_def dict_get_def scan_readiness_signals_eq Let_def
        lower_def str_in_def readiness_signals_def
      split: option.splits json.splits)

lemma extends_refl: "extends st st"
  by (simp add: extends_def)

lemma extends_trans: "extends a b \<Longrightarrow> extends b c \<Longrightarrow> extends a c"
  unfolding extends_def by (elim conjE exE) (auto)

lemma extends_log: "extends st a \<Longrightarrow> extends st (logger_log m l a)"
  unfolding extends_def by (elim conjE exE) (auto simp: handler_effect_def)

lemma extends_set: "extends st a \<Longrightarrow> extends st (server_ready_set a)"
  unfolding extends_def by (elim conjE exE) (auto simp: handler_effect_def)

lemma window_log_message_extends: "extends st (snd (window_log_message msg st))"
proof (cases msg)
  case (JDict kv)
  show ?thesis
    unfolding JDict window_log_message_str
    by (auto simp: Let_def split: option.splits json.splits
          intro!: extends_log extends_set extends_refl)
qed (simp_all add: window_log_message_def dict_get_def extends_refl)

lemma check_server_ready_extends: "extends st (snd (check_server_ready params st))"
  unfolding check_server_ready_def dict_get_def
  by (auto simp: Let_def split: option.splits json.splits sum.splits
        intro!: extends_log extends_set extends_refl)

lemma deliver_extends: "extends st (deliver n st)"
  unfolding deliver_def dispatch_def Let_def
  by (simp add: window_log_message_extends check_server_ready_extends extends_refl
        do_nothing_def register_capability_handler_def)

lemma deliver_all_extends: "extends st (deliver_all ns st)"
  by (induction ns arbitrary: st) (auto intro: extends_refl extends_trans deliver_extends)

lemma extends_ready: "extends st st' \<Longrightarrow> server_ready st \<Longrightarrow> server_ready st'"
  by (simp add: extends_def)

text \<open>
  Whether a handler leaves \<open>server_ready\<close> set depends on the notification and on the flag
  before, and on nothing else in the state.
\<close>

lemma window_log_message_ready:
  "server_ready (snd (window_log_message msg st)) =
     (server_ready st \<or> server_ready (snd (window_log_message msg fresh_state)))"
proof (cases msg)
  case (JDict kv)
  show ?thesis
    unfolding JDict window_log_message_str
    by (simp add: Let_def fresh_state_def split: option.split json.split)
qed (simp_all add: window_log_message_def dict_get_def fresh_state_def)

lemma check_server_ready_ready:
  "server_ready (snd (check_server_ready params st)) =
     (server_ready st \<or> server_ready (snd (check_server_ready params fresh_state)))"
  unfolding check_server_ready_def dict_get_def
  by (simp add: Let_def fresh_state_def split: option.split json.split sum.split)

lemma deliver_ready:
  "server_ready (deliver n st) = (server_ready st \<or> server_ready (deliver n fresh_state))"
proof -
  have fresh: "\<not> server_ready fresh_state"
    by (simp add: fresh_state_def)
  have "(deliver n st = snd (window_log_message (snd n) st) \<and>
         deliver n fresh_state = snd (window_log_message (snd n) fresh_state)) \<or>
        (deliver n st = snd (check_server_ready (snd n) st) \<and>
         deliver n fresh_state = snd (check_server_ready (snd n) fresh_state)) \<or>
        (deliver n st = st \<and> deliver n fresh_state = fresh_state)"
    by (simp add: deliver_def dispatch_def Let_def do_nothing_def register_capability_handler_def)
  then show ?thesis
    using window_log_message_ready [of "snd n" st] check_server_ready_ready [of "snd n" st] fresh
    by (elim disjE conjE) simp_all
qed

lemma deliver_ready_cong:
  "server_ready a = server_ready b \<Longrightarrow> server_ready (deliver n a) = server_ready (deliver n b)"
  using deliver_ready [of n a] deliver_ready [of n b] by simp

lemma deliver_all_ready_cong:
  "server_ready a = server_ready b \<Longrightarrow>
   server_ready (deliver_all ns a) = server_ready (deliver_all ns b)"
proof (induction ns arbitrary: a b)
  case Nil
  then show ?case by simp
next
  case (Cons n ns)
  from Cons.prems have "server_ready (deliver n a) = server_ready (deliver n b)"
    by (rule deliver_ready_cong)
  then have "server_ready (deliver_all ns (deliver n a)) = server_ready (deliver_all ns (deliver n b))"
    by (rule Cons.IH)
  then show ?case by simp
qed

section \<open>The readiness wait\<close>

lemma server_ready_wait_props:
  "server_ready_wait T w sched st = (b, w', pend, st') \<Longrightarrow>
     extends st st' \<and> server_ready st' = b \<and> (\<not> b \<longrightarrow> w' = T)"
proof (induction T w sched st rule: server_ready_wait.induct)
  case (1 timeout waited st)
  then show ?case by (auto simp: extends_refl split: if_splits)
next
  case (2 timeout waited t n rest st)
  show ?case
  proof (cases "\<not> server_ready st \<and> t < timeout")
    case True
    with 2 have "extends (deliver n st) st' \<and> server_ready st' = b \<and> (\<not> b \<longrightarrow> w' = timeout)"
      by simp
    then show ?thesis
      using deliver_extends [of st n] by (blast intro: extends_trans)
  next
    case False
    with 2 show ?thesis by (auto simp: extends_refl split: if_splits)
  qed
qed

lemma server_ready_wait_flag:
  "fst (server_ready_wait T w sched st) =
     server_ready (deliver_all (map snd (takeWhile (\<lambda>(t, n). t < T) sched)) st)"
proof (induction T w sched st rule: server_ready_wait.induct)
  case (1 timeout waited st)
  then show ?case by simp
next
  case (2 timeout waited t n rest st)
  show ?case
  proof (cases "server_ready st")
    case True
    then show ?thesis
      using extends_ready [OF deliver_all_extends] by simp
  next
    case False
    with 2 show ?thesis by simp
  qed
qed

section \<open>The handshake\<close>

lemma quiet_refl: "quiet st st"
  by (simp add: quiet_def)

lemma quiet_emit: "quiet st a \<Longrightarrow> quiet_effect x \<Longrightarrow> quiet st (emit x a)"
  unfolding quiet_def by (elim conjE exE) simp

lemma quiet_log: "quiet st a \<Longrightarrow> quiet st (logger_log m l a)"
  unfolding logger_log_def by (rule quiet_emit) (simp_all add: quiet_effect_def)

lemma quiet_completions: "quiet st a \<Longrightarrow> quiet st (completions_available_set a)"
  unfolding quiet_def by (elim conjE exE) (simp add: quiet_effect_def)

lemma log_capabilities_cases:
  "snd (log_capabilities r st) = st \<or>
   (fst (log_capabilities r st) = None \<and>
    (\<exists>keys. snd (log_capabilities r st) = logger_log (Capabilities keys) INFO st))"
  unfolding log_capabilities_def
  by (auto split: sum.split bool.split)

lemma log_capabilities_quiet: "quiet st a \<Longrightarrow> quiet st (snd (log_capabilities r a))"
  using log_capabilities_cases [of r a] by (auto intro: quiet_log)

lemma handshake_try_quiet: "quiet st a \<Longrightarrow> quiet st (snd (handshake_try tr a))"
proof -
  assume q: "quiet st a"
  let ?st1 = "emit (Send_initialize (initialize_params (repository_root_path a))) a"
  have q1: "quiet st ?st1"
    using q by (rule quiet_emit) (simp add: quiet_effect_def)
  show ?thesis
  proof (cases "initialize_returns tr")
    case (Inl ex)
    then show ?thesis using q1 by (simp add: handshake_try_def Let_def)
  next
    case (Inr r)
    obtain x st2 where lc: "log_capabilities r ?st1 = (x, st2)"
      by (cases "log_capabilities r ?st1")
    have q2: "quiet st st2"
      using log_capabilities_quiet [OF q1, of r] lc by simp
    have q3: "quiet st (emit Notify_initialized st2)"
      using q2 by (rule quiet_emit) (simp add: quiet_effect_def)
    show ?thesis
      using Inr lc q2 q3
      by (auto simp: handshake_try_def Let_def split: option.split
            intro: quiet_log quiet_completions)
  qed
qed

lemma handshake_try_gate:
  "fst (handshake_try tr a) = None \<Longrightarrow> completions_available (snd (handshake_try tr a))"
  unfolding handshake_try_def Let_def
  by (auto split: sum.splits option.splits prod.splits)

lemma handshake_quiet: "quiet st (snd (handshake tr st))"
proof -
  let ?a = "logger_log Sending_initialize_request INFO st"
  have "quiet st ?a"
    by (rule quiet_log) (rule quiet_refl)
  then have q: "quiet st (snd (handshake_try tr ?a))"
    by (rule handshake_try_quiet)
  obtain x st1 where h: "handshake_try tr ?a = (x, st1)"
    by (cases "handshake_try tr ?a")
  show ?thesis
    using q h by (cases x) (auto simp: handshake_def intro: quiet_log quiet_completions)
qed

lemma handshake_gate: "completions_available (snd (handshake tr st))"
proof -
  let ?a = "logger_log Sending_initialize_request INFO st"
  obtain x st1 where h: "handshake_try tr ?a = (x, st1)"
    by (cases "handshake_try tr ?a")
  show ?thesis
    using h handshake_try_gate [of tr ?a] by (cases x) (auto simp: handshake_def)
qed

lemma handshake_raises:
  "initialize_returns tr = Inl ex \<Longrightarrow>
   handshake tr st =
     (Some ex,
      completions_available_set
        (logger_log (Initialization_failed ex) ERROR
          (emit (Send_initialize (initialize_params (repository_root_path st)))
            (logger_log Sending_initialize_request INFO st))))"
  by (simp add: handshake_def handshake_try_def Let_def)

section \<open>Waiting for readiness, and the whole of startup\<close>

lemma extends_fields:
  "extends st st' \<Longrightarrow>
     cmd st' = cmd st \<and> repository_root_path st' = repository_root_path st \<and>
     completions_available st' = completions_available st \<and>
     request_timeout st' = request_timeout st \<and> request_count st' = request_count st \<and>
     timeout_count st' = timeout_count st \<and> last_timeout_time st' = last_timeout_time st"
  by (simp add: extends_def)

lemma quiet_fields:
  "quiet st st' \<Longrightarrow>
     cmd st' = cmd st \<and> repository_root_path st' = repository_root_path st \<and>
     server_ready st' = server_ready st \<and>
     request_timeout st' = request_timeout st \<and> request_count st' = request_count st \<and>
     timeout_count st' = timeout_count st \<and> last_timeout_time st' = last_timeout_time st"
  by (simp add: quiet_def)

text \<open>
  The state in which the wait ends: reached from the state after the "Waiting up to ..."
  log line by handler effects only; set or clear as the notifications that arrive before
  the timeout decide.
\<close>

lemma await_readiness_wait:
  fixes e sched st
  defines "T \<equiv> fst (ready_timeout_for e)"
  defines "st1 \<equiv> logger_log (Waiting_for_readiness (fst (ready_timeout_for e))
                     (snd (ready_timeout_for e))) INFO st"
  defines "r \<equiv> server_ready_wait (fst (ready_timeout_for e)) 0 sched st1"
  shows "extends st1 (snd (snd (snd r))) \<and>
         server_ready (snd (snd (snd r))) = fst r \<and>
         (\<not> fst r \<longrightarrow> fst (snd r) = T) \<and>
         fst r = server_ready (deliver_all (map snd (takeWhile (\<lambda>(t, n). t < T) sched)) st)"
proof -
  obtain b w pend st2 where r: "r = (b, w, pend, st2)"
    by (cases r)
  have p: "extends st1 st2 \<and> server_ready st2 = b \<and> (\<not> b \<longrightarrow> w = T)"
    using server_ready_wait_props [of T 0 sched st1 b w pend st2] r
    by (simp add: r_def T_def)
  have "server_ready st1 = server_ready st"
    by (simp add: st1_def)
  then have "server_ready (deliver_all (map snd (takeWhile (\<lambda>(t, n). t < T) sched)) st1) =
             server_ready (deliver_all (map snd (takeWhile (\<lambda>(t, n). t < T) sched)) st)"
    by (rule deliver_all_ready_cong)
  then have "b = server_ready (deliver_all (map snd (takeWhile (\<lambda>(t, n). t < T) sched)) st)"
    using server_ready_wait_flag [of T 0 sched st1] r by (simp add: r_def T_def)
  with p r show ?thesis by simp
qed

lemma await_readiness_signalled:
  assumes "server_ready (deliver_all
             (map snd (takeWhile (\<lambda>(t, n). t < fst (ready_timeout_for e)) sched)) st)"
  shows "\<exists>st2 w.
           extends (logger_log (Waiting_for_readiness (fst (ready_timeout_for e))
                      (snd (ready_timeout_for e))) INFO st) st2 \<and>
           server_ready st2 \<and>
           snd (await_readiness e sched st) =
             logger_log Settling_complete INFO
               (time_sleep (settling_time e)
                 (logger_log (Allowing_settling (settling_time e)) INFO
                   (logger_log Ready_and_available INFO
                     (emit (Server_ready_wait (fst (ready_timeout_for e)) w True) st2))))"
proof -
  let ?st1 = "logger_log (Waiting_for_readiness (fst (ready_timeout_for e))
                (snd (ready_timeout_for e))) INFO st"
  obtain b w pend st2 where
    r: "server_ready_wait (fst (ready_timeout_for e)) 0 sched ?st1 = (b, w, pend, st2)"
    by (cases "server_ready_wait (fst (ready_timeout_for e)) 0 sched ?st1")
  from await_readiness_wait [of e st sched] r assms
  have "extends ?st1 st2" and "server_ready st2" and "b"
    by simp_all
  moreover from r \<open>b\<close> have "snd (await_readiness e sched st) =
             logger_log Settling_complete INFO
               (time_sleep (settling_time e)
                 (logger_log (Allowing_settling (settling_time e)) INFO
                   (logger_log Ready_and_available INFO
                     (emit (Server_ready_wait (fst (ready_timeout_for e)) w True) st2))))"
    by (simp add: await_readiness_def Let_def)
  ultimately show ?thesis by blast
qed

lemma await_readiness_forced:
  assumes "\<not> server_ready (deliver_all
             (map snd (takeWhile (\<lambda>(t, n). t < fst (ready_timeout_for e)) sched)) st)"
  shows "\<exists>st2.
           extends (logger_log (Waiting_for_readiness (fst (ready_timeout_for e))
                      (snd (ready_timeout_for e))) INFO st) st2 \<and>
           \<not> server_ready st2 \<and>
           snd (await_readiness e sched st) =
             logger_log Basic_initialization_complete INFO
               (time_sleep (basic_settling_time e)
                 (logger_log (Allowing_basic_initialization (basic_settling_time e)) INFO
                   (server_ready_set
                     (logger_log (Readiness_timeout_reached (fst (ready_timeout_for e))) WARNING
                       (emit (Server_ready_wait (fst (ready_timeout_for e))
                                (fst (ready_timeout_for e)) False) st2)))))"
proof -
  let ?st1 = "logger_log (Waiting_for_readiness (fst (ready_timeout_for e))
                (snd (ready_timeout_for e))) INFO st"
  obtain b w pend st2 where
    r: "server_ready_wait (fst (ready_timeout_for e)) 0 sched ?st1 = (b, w, pend, st2)"
    by (cases "server_ready_wait (fst (ready_timeout_for e)) 0 sched ?st1")
  from await_readiness_wait [of e st sched] r assms
  have "extends ?st1 st2" and "\<not> server_ready st2" and "\<not> b" and "w = fst (ready_timeout_for e)"
    by simp_all
  moreover from r \<open>\<not> b\<close> \<open>w = fst (ready_timeout_for e)\<close>
  have "snd (await_readiness e sched st) =
             logger_log Basic_initialization_complete INFO
               (time_sleep (basic_settling_time e)
                 (logger_log (Allowing_basic_initialization (basic_settling_time e)) INFO
                   (server_ready_set
                     (logger_log (Readiness_timeout_reached (fst (ready_timeout_for e))) WARNING
                       (emit (Server_ready_wait (fst (ready_timeout_for e))
                                (fst (ready_timeout_for e)) False) st2)))))"
    by (simp add: await_readiness_def Let_def)
  ultimately show ?thesis by blast
qed

lemma await_readiness_fields:
  "server_ready (snd (await_readiness e sched st)) \<and>
   completions_available (snd (await_readiness e sched st)) = completions_available st \<and>
   request_timeout (snd (await_readiness e sched st)) = request_timeout st \<and>
   request_count (snd (await_readiness e sched st)) = request_count st \<and>
   timeout_count (snd (await_readiness e sched st)) = timeout_count st \<and>
   last_timeout_time (snd (await_readiness e sched st)) = last_timeout_time st"
proof (cases "server_ready (deliver_all
                (map snd (takeWhile (\<lambda>(t, n). t < fst (ready_timeout_for e)) sched)) st)")
  case True
  from await_readiness_signalled [OF True] obtain st2 w where
    "extends (logger_log (Waiting_for_readiness (fst (ready_timeout_for e))
                      (snd (ready_timeout_for e))) INFO st) st2"
    "server_ready st2"
    "snd (await_readiness e sched st) =
             logger_log Settling_complete INFO
               (time_sleep (settling_time e)
                 (logger_log (Allowing_settling (settling_time e)) INFO
                   (logger_log Ready_and_available INFO
                     (emit (Server_ready_wait (fst (ready_timeout_for e)) w True) st2))))"
    by blast
  then show ?thesis
    using extends_fields [of "logger_log (Waiting_for_readiness (fst (ready_timeout_for e))
                      (snd (ready_timeout_for e))) INFO st" st2]
    by simp
next
  case False
  from await_readiness_forced [OF False] obtain st2 where
    "extends (logger_log (Waiting_for_readiness (fst (ready_timeout_for e))
                      (snd (ready_timeout_for e))) INFO st) st2"
    "snd (await_readiness e sched st) =
             logger_log Basic_initialization_complete INFO
               (time_sleep (basic_settling_time e)
                 (logger_log (Allowing_basic_initialization (basic_settling_time e)) INFO
                   (server_ready_set
                     (logger_log (Readiness_timeout_reached (fst (ready_timeout_for e))) WARNING
                       (emit (Server_ready_wait (fst (ready_timeout_for e))
                                (fst (ready_timeout_for e)) False) st2)))))"
    by blast
  then show ?thesis
    using extends_fields [of "logger_log (Waiting_for_readiness (fst (ready_timeout_for e))
                      (snd (ready_timeout_for e))) INFO st" st2]
    by simp
qed

text \<open>The three ways \<open>_start_server\<close> ends.\<close>

lemma start_server_cases:
  fixes e tr sched st
  defines "st1 \<equiv> emit Server_start (logger_log Starting_server_process INFO st)"
  shows "(\<exists>ex. start_raises tr = Some ex \<and> start_server e tr sched st = (Some ex, sched, st1)) \<or>
         (\<exists>ex. start_raises tr = None \<and> fst (handshake tr st1) = Some ex \<and>
               start_server e tr sched st = (Some ex, sched, snd (handshake tr st1))) \<or>
         (start_raises tr = None \<and> fst (handshake tr st1) = None \<and>
          start_server e tr sched st =
            (None, fst (await_readiness e sched (snd (handshake tr st1))),
             snd (await_readiness e sched (snd (handshake tr st1)))))"
proof (cases "start_raises tr")
  case (Some ex)
  then show ?thesis by (simp add: start_server_def st1_def Let_def)
next
  case None
  obtain x st2 where h: "handshake tr st1 = (x, st2)"
    by (cases "handshake tr st1")
  obtain pend st3 where a: "await_readiness e sched st2 = (pend, st3)"
    by (cases "await_readiness e sched st2")
  show ?thesis
    using None h a by (cases x) (simp_all add: start_server_def st1_def [symmetric] Let_def)
qed

lemma start_server_fields:
  "(server_ready st \<longrightarrow> server_ready (snd (snd (start_server e tr sched st)))) \<and>
   request_timeout (snd (snd (start_server e tr sched st))) = request_timeout st \<and>
   request_count (snd (snd (start_server e tr sched st))) = request_count st \<and>
   timeout_count (snd (snd (start_server e tr sched st))) = timeout_count st \<and>
   last_timeout_time (snd (snd (start_server e tr sched st))) = last_timeout_time st"
proof -
  let ?st1 = "emit Server_start (logger_log Starting_server_process INFO st)"
  let ?st2 = "snd (handshake tr ?st1)"
  have q: "server_ready ?st2 = server_ready st \<and>
     request_timeout ?st2 = request_timeout st \<and> request_count ?st2 = request_count st \<and>
     timeout_count ?st2 = timeout_count st \<and> last_timeout_time ?st2 = last_timeout_time st"
    using quiet_fields [OF handshake_quiet, of tr ?st1] by simp
  show ?thesis
    using start_server_cases [of tr e sched st] q await_readiness_fields [of e sched ?st2]
    by (elim disjE exE conjE) simp_all
qed

lemma quiet_effects:
  "quiet st st' \<Longrightarrow> \<exists>xs. effects st' = effects st @ xs \<and> Server_ready_set \<notin> set xs"
proof -
  assume "quiet st st'"
  then obtain xs where xs: "effects st' = effects st @ xs" "list_all quiet_effect xs"
    unfolding quiet_def by blast
  have "Server_ready_set \<notin> set xs"
  proof
    assume "Server_ready_set \<in> set xs"
    with xs(2) have "quiet_effect Server_ready_set"
      by (simp add: list_all_iff)
    then show False by (simp add: quiet_effect_def)
  qed
  with xs(1) show ?thesis by blast
qed

lemma extends_effects:
  "extends st st' \<Longrightarrow>
     \<exists>xs. effects st' = effects st @ xs \<and> (\<not> server_ready st' \<longrightarrow> Server_ready_set \<notin> set xs)"
  unfolding extends_def by blast

text \<open>
  The history of a startup that reached the wait, after a timeout and after a signal.
  In both, \<open>pre\<close> holds the start of the process, the handshake, the "Waiting up to ..."
  line and what the handlers did during the wait.
\<close>

lemma start_server_forced:
  assumes ok: "fst (start_server e tr sched st) = None"
    and quiet_sched: "\<not> server_ready (deliver_all
           (map snd (takeWhile (\<lambda>(t, n). t < fst (ready_timeout_for e)) sched)) st)"
  shows "\<exists>pre. effects (snd (snd (start_server e tr sched st))) =
           effects st @ pre @
             [Server_ready_wait (fst (ready_timeout_for e)) (fst (ready_timeout_for e)) False,
              Log (Readiness_timeout_reached (fst (ready_timeout_for e))) WARNING,
              Server_ready_set,
              Log (Allowing_basic_initialization (basic_settling_time e)) INFO,
              Sleep (basic_settling_time e),
              Log Basic_initialization_complete INFO] \<and>
           Server_ready_set \<notin> set pre"
proof -
  let ?st1 = "emit Server_start (logger_log Starting_server_process INFO st)"
  let ?st2 = "snd (handshake tr ?st1)"
  let ?T = "fst (ready_timeout_for e)"
  let ?st3 = "logger_log (Waiting_for_readiness ?T (snd (ready_timeout_for e))) INFO ?st2"
  from ok start_server_cases [of tr e sched st]
  have final: "snd (snd (start_server e tr sched st)) = snd (await_readiness e sched ?st2)"
    by (elim disjE exE conjE) simp_all
  have q: "quiet ?st1 ?st2"
    by (rule handshake_quiet)
  then have "server_ready ?st2 = server_ready st"
    using quiet_fields [of ?st1 ?st2] by simp
  then have "server_ready (deliver_all (map snd (takeWhile (\<lambda>(t, n). t < ?T) sched)) ?st2) =
             server_ready (deliver_all (map snd (takeWhile (\<lambda>(t, n). t < ?T) sched)) st)"
    by (rule deliver_all_ready_cong)
  with quiet_sched
  have "\<not> server_ready (deliver_all (map snd (takeWhile (\<lambda>(t, n). t < ?T) sched)) ?st2)"
    by simp
  from await_readiness_forced [OF this] obtain st4 where
    ext: "extends ?st3 st4" and clear: "\<not> server_ready st4" and
    res: "snd (await_readiness e sched ?st2) =
             logger_log Basic_initialization_complete INFO
               (time_sleep (basic_settling_time e)
                 (logger_log (Allowing_basic_initialization (basic_settling_time e)) INFO
                   (server_ready_set
                     (logger_log (Readiness_timeout_reached ?T) WARNING
                       (emit (Server_ready_wait ?T ?T False) st4)))))"
    by blast
  from quiet_effects [OF q] obtain xs where
    xs: "effects ?st2 = effects ?st1 @ xs" "Server_ready_set \<notin> set xs"
    by blast
  from extends_effects [OF ext] clear obtain ys where
    ys: "effects st4 = effects ?st3 @ ys" "Server_ready_set \<notin> set ys"
    by blast
  let ?pre = "[Log Starting_server_process INFO, Server_start] @ xs @
              [Log (Waiting_for_readiness ?T (snd (ready_timeout_for e))) INFO] @ ys"
  have "effects st4 = effects st @ ?pre"
    using xs(1) ys(1) by simp
  moreover have "Server_ready_set \<notin> set ?pre"
    using xs(2) ys(2) by simp
  ultimately show ?thesis
    using final res by (intro exI [of _ ?pre]) simp
qed

lemma start_server_signalled:
  assumes ok: "fst (start_server e tr sched st) = None"
    and signal: "server_ready (deliver_all
           (map snd (takeWhile (\<lambda>(t, n). t < fst (ready_timeout_for e)) sched)) st)"
  shows "\<exists>pre w. effects (snd (snd (start_server e tr sched st))) =
           effects st @ pre @
             [Server_ready_wait (fst (ready_timeout_for e)) w True,
              Log Ready_and_available INFO,
              Log (Allowing_settling (settling_time e)) INFO,
              Sleep (settling_time e),
              Log Settling_complete INFO]"
proof -
  let ?st1 = "emit Server_start (logger_log Starting_server_process INFO st)"
  let ?st2 = "snd (handshake tr ?st1)"
  let ?T = "fst (ready_timeout_for e)"
  let ?st3 = "logger_log (Waiting_for_readiness ?T (snd (ready_timeout_for e))) INFO ?st2"
  from ok start_server_cases [of tr e sched st]
  have final: "snd (snd (start_server e tr sched st)) = snd (await_readiness e sched ?st2)"
    by (elim disjE exE conjE) simp_all
  have q: "quiet ?st1 ?st2"
    by (rule handshake_quiet)
  then have "server_ready ?st2 = server_ready st"
    using quiet_fields [of ?st1 ?st2] by simp
  then have "server_ready (deliver_all (map snd (takeWhile (\<lambda>(t, n). t < ?T) sched)) ?st2) =
             server_ready (deliver_all (map snd (takeWhile (\<lambda>(t, n). t < ?T) sched)) st)"
    by (rule deliver_all_ready_cong)
  with signal
  have "server_ready (deliver_all (map snd (takeWhile (\<lambda>(t, n). t < ?T) sched)) ?st2)"
    by simp
  from await_readiness_signalled [OF this] obtain st4 w where
    ext: "extends ?st3 st4" and
    res: "snd (await_readiness e sched ?st2) =
             logger_log Settling_complete INFO
               (time_sleep (settling_time e)
                 (logger_log (Allowing_settling (settling_time e)) INFO
                   (logger_log Ready_and_available INFO
                     (emit (Server_ready_wait ?T w True) st4))))"
    by blast
  from quiet_effects [OF q] obtain xs where xs: "effects ?st2 = effects ?st1 @ xs"
    by blast
  from extends_effects [OF ext] obtain ys where ys: "effects st4 = effects ?st3 @ ys"
    by blast
  let ?pre = "[Log Starting_server_process INFO, Server_start] @ xs @
              [Log (Waiting_for_readiness ?T (snd (ready_timeout_for e))) INFO] @ ys"
  have "effects st4 = effects st @ ?pre"
    using xs ys by simp
  then show ?thesis
    using final res by (intro exI [of _ ?pre] exI [of _ w]) simp
qed

section \<open>Construction\<close>

lemma fresh_state_init:
  "init local_env (Some ''/usr/bin/erlang_ls'') (Inr 0) ''/repo'' = Inr fresh_state"
  by (simp add: init_def local_env_def is_ci_def check_erlang_installation_def
        request_timeout_for_def fresh_state_def)

lemma init_counters:
  "init e which run root_path = Inr st \<Longrightarrow>
     request_count st = 0 \<and> timeout_count st = 0 \<and> last_timeout_time st = 0 \<and>
     request_timeout st = Some (request_timeout_for e) \<and>
     \<not> server_ready st \<and> \<not> completions_available st \<and> effects st = []"
  unfolding init_def
  by (auto split: option.splits if_splits sum.splits bool.splits)

section \<open>Request telemetry\<close>

text \<open>
  C1 (amended). The claim says that every outbound protocol call increments the
  total-request counter and that a call exceeding its timeout increments the timeout
  counter and records a timestamp. The class only initialises the three counters:
  \<open>__init__\<close> sets them to 0, and the two request wrappers never write them. What holds:
  a wrapped call hands back exactly the outcome of the base class's call (its result, or
  the exception it raised, re-raised), leaves \<open>_request_count\<close>, \<open>_timeout_count\<close> and
  \<open>_last_timeout_time\<close> as they were, and adds to the log one WARNING line with the elapsed
  time when the call raised, one INFO line when it returned after more than 10 seconds,
  and nothing otherwise.
\<close>

theorem request_telemetry:
  "(init e which run root_path = Inr st0 \<longrightarrow>
      request_count st0 = 0 \<and> timeout_count st0 = 0 \<and> last_timeout_time st0 = 0) \<and>
   fst (request_containing_symbol (elapsed, outcome) st) = outcome \<and>
   fst (request_referencing_symbols (elapsed, outcome) st) = outcome \<and>
   request_count (snd (request_containing_symbol (elapsed, outcome) st)) = request_count st \<and>
   timeout_count (snd (request_containing_symbol (elapsed, outcome) st)) = timeout_count st \<and>
   last_timeout_time (snd (request_containing_symbol (elapsed, outcome) st)) = last_timeout_time st \<and>
   request_count (snd (request_referencing_symbols (elapsed, outcome) st)) = request_count st \<and>
   timeout_count (snd (request_referencing_symbols (elapsed, outcome) st)) = timeout_count st \<and>
   last_timeout_time (snd (request_referencing_symbols (elapsed, outcome) st)) = last_timeout_time st \<and>
   new_effects st (snd (request_containing_symbol (elapsed, outcome) st)) =
     (case outcome of
        Inl ex \<Rightarrow> [Log (Containing_symbol_failed elapsed ex) WARNING]
      | Inr result \<Rightarrow> if elapsed > 10 then [Log (Slow_containing_symbol elapsed) INFO] else []) \<and>
   new_effects st (snd (request_referencing_symbols (elapsed, outcome) st)) =
     (case outcome of
        Inl ex \<Rightarrow> [Log (Referencing_symbols_failed elapsed ex) WARNING]
      | Inr result \<Rightarrow> if elapsed > 10 then [Log (Slow_referencing_symbols elapsed) INFO] else [])"
proof -
  have "init e which run root_path = Inr st0 \<longrightarrow>
      request_count st0 = 0 \<and> timeout_count st0 = 0 \<and> last_timeout_time st0 = 0"
    using init_counters [of e which run root_path st0] by simp
  moreover have
   "fst (request_containing_symbol (elapsed, outcome) st) = outcome \<and>
    request_count (snd (request_containing_symbol (elapsed, outcome) st)) = request_count st \<and>
    timeout_count (snd (request_containing_symbol (elapsed, outcome) st)) = timeout_count st \<and>
    last_timeout_time (snd (request_containing_symbol (elapsed, outcome) st)) = last_timeout_time st \<and>
    new_effects st (snd (request_containing_symbol (elapsed, outcome) st)) =
     (case outcome of
        Inl ex \<Rightarrow> [Log (Containing_symbol_failed elapsed ex) WARNING]
      | Inr result \<Rightarrow> if elapsed > 10 then [Log (Slow_containing_symbol elapsed) INFO] else [])"
    by (cases outcome) (simp_all add: request_containing_symbol_def new_effects_def)
  moreover have
   "fst (request_referencing_symbols (elapsed, outcome) st) = outcome \<and>
    request_count (snd (request_referencing_symbols (elapsed, outcome) st)) = request_count st \<and>
    timeout_count (snd (request_referencing_symbols (elapsed, outcome) st)) = timeout_count st \<and>
    last_timeout_time (snd (request_referencing_symbols (elapsed, outcome) st)) = last_timeout_time st \<and>
    new_effects st (snd (request_referencing_symbols (elapsed, outcome) st)) =
     (case outcome of
        Inl ex \<Rightarrow> [Log (Referencing_symbols_failed elapsed ex) WARNING]
      | Inr result \<Rightarrow> if elapsed > 10 then [Log (Slow_referencing_symbols elapsed) INFO] else [])"
    by (cases outcome) (simp_all add: request_referencing_symbols_def new_effects_def)
  ultimately show ?thesis by simp
qed

theorem request_telemetry_witness:
  "init local_env (Some ''/usr/bin/erlang_ls'') (Inr 0) ''/repo'' = Inr fresh_state \<and>
   request_count fresh_state = 0 \<and> timeout_count fresh_state = 0 \<and>
   last_timeout_time fresh_state = 0 \<and>
   fst (request_containing_symbol (61, Inl (OtherException ''RequestTimeoutError'') :: exn + json) fresh_state)
     = Inl (OtherException ''RequestTimeoutError'') \<and>
   timeout_count (snd (request_containing_symbol
     (61, Inl (OtherException ''RequestTimeoutError'') :: exn + json) fresh_state))
     = timeout_count fresh_state \<and>
   new_effects fresh_state (snd (request_containing_symbol
     (61, Inl (OtherException ''RequestTimeoutError'') :: exn + json) fresh_state))
     = [Log (Containing_symbol_failed 61 (OtherException ''RequestTimeoutError'')) WARNING]"
  using request_telemetry [of local_env "Some ''/usr/bin/erlang_ls''" "Inr 0" "''/repo''" fresh_state
      61 "Inl (OtherException ''RequestTimeoutError'') :: exn + json" fresh_state]
    fresh_state_init
  by simp

text \<open>
  The claim fails as stated: after a containing-symbol call that raised a timeout error
  after 61 seconds, and after a referencing-symbols call that returned, all counters of
  the freshly constructed supervisor are still 0.
\<close>

theorem request_telemetry_counterexample:
  "fst (request_containing_symbol (61, Inl (OtherException ''RequestTimeoutError'') :: exn + json) fresh_state)
     = Inl (OtherException ''RequestTimeoutError'') \<and>
   request_count (snd (request_containing_symbol
     (61, Inl (OtherException ''RequestTimeoutError'') :: exn + json) fresh_state)) = 0 \<and>
   timeout_count (snd (request_containing_symbol
     (61, Inl (OtherException ''RequestTimeoutError'') :: exn + json) fresh_state)) = 0 \<and>
   last_timeout_time (snd (request_containing_symbol
     (61, Inl (OtherException ''RequestTimeoutError'') :: exn + json) fresh_state)) = 0 \<and>
   request_count (snd (request_referencing_symbols
     (2, Inr (JList []) :: exn + json) fresh_state)) = 0"
  by (simp add: request_containing_symbol_def request_referencing_symbols_def fresh_state_def)

section \<open>Timeout budgets and settling delays\<close>

lemma is_ci_examples: "\<not> is_ci local_env" "is_ci ci_env" "is_ci macos_ci_env"
  by (simp_all add: is_ci_def local_env_def ci_env_def macos_ci_env_def)

lemma is_macos_examples: "\<not> is_macos local_env" "\<not> is_macos ci_env" "is_macos macos_ci_env"
  by (simp_all add: is_macos_def local_env_def ci_env_def macos_ci_env_def)

lemma good_startup:
  "fst (start_server e good_transport sched st) = None"
proof -
  have "fst (handshake good_transport a) = None" for a
    by (simp add: handshake_def handshake_try_def log_capabilities_def has_capabilities_def
          capability_keys_def good_transport_def Let_def)
  moreover have "start_raises good_transport = None"
    by (simp add: good_transport_def)
  ultimately show ?thesis
    using start_server_cases [of good_transport e sched st]
    by (elim disjE exE conjE) simp_all
qed

text \<open>
  C7. The per-request timeout is chosen in \<open>__init__\<close> from the environment alone: 45
  seconds under continuous integration, 60 seconds otherwise, so strictly shorter under
  CI; neither startup, nor a notification handler, nor a request wrapper changes it
  afterwards. The readiness-wait timeout is chosen in \<open>_start_server\<close> from the
  environment alone: 240 seconds for CI on macOS, 180 seconds for other CI, 60 seconds
  locally, strictly decreasing in that order; and it is the timeout of the wait that a
  startup reaching the wait performs.
\<close>

theorem timeout_budgets:
  "request_timeout_for e = (if is_ci e then 45 else 60) \<and>
   fst (ready_timeout_for e) = (if is_ci e \<and> is_macos e then 240 else if is_ci e then 180 else 60) \<and>
   (is_ci e1 \<and> \<not> is_ci e2 \<longrightarrow> request_timeout_for e1 < request_timeout_for e2) \<and>
   (is_ci e1 \<and> is_macos e1 \<and> is_ci e2 \<and> \<not> is_macos e2 \<and> \<not> is_ci e3 \<longrightarrow>
      fst (ready_timeout_for e3) < fst (ready_timeout_for e2) \<and>
      fst (ready_timeout_for e2) < fst (ready_timeout_for e1)) \<and>
   (init e which run root_path = Inr st0 \<longrightarrow> request_timeout st0 = Some (request_timeout_for e)) \<and>
   request_timeout (snd (snd (start_server e tr sched st))) = request_timeout st \<and>
   request_timeout (deliver n st) = request_timeout st \<and>
   request_timeout (snd (request_containing_symbol call st)) = request_timeout st \<and>
   request_timeout (snd (request_referencing_symbols call st)) = request_timeout st \<and>
   (fst (start_server e tr sched st) = None \<longrightarrow>
      (\<exists>w b. Server_ready_wait (fst (ready_timeout_for e)) w b
               \<in> set (new_effects st (snd (snd (start_server e tr sched st))))))"
proof -
  have a: "request_timeout_for e = (if is_ci e then 45 else 60)"
    by (simp add: request_timeout_for_def)
  have b: "fst (ready_timeout_for e) =
             (if is_ci e \<and> is_macos e then 240 else if is_ci e then 180 else 60)"
    by (simp add: ready_timeout_for_def)
  have c: "is_ci e1 \<and> \<not> is_ci e2 \<longrightarrow> request_timeout_for e1 < request_timeout_for e2"
    by (simp add: request_timeout_for_def)
  have d: "is_ci e1 \<and> is_macos e1 \<and> is_ci e2 \<and> \<not> is_macos e2 \<and> \<not> is_ci e3 \<longrightarrow>
      fst (ready_timeout_for e3) < fst (ready_timeout_for e2) \<and>
      fst (ready_timeout_for e2) < fst (ready_timeout_for e1)"
    by (simp add: ready_timeout_for_def)
  have i: "init e which run root_path = Inr st0 \<longrightarrow>
             request_timeout st0 = Some (request_timeout_for e)"
    using init_counters [of e which run root_path st0] by simp
  have s: "request_timeout (snd (snd (start_server e tr sched st))) = request_timeout st"
    using start_server_fields [where st = st and e = e and tr = tr and sched = sched] by simp
  have n: "request_timeout (deliver n st) = request_timeout st"
    using extends_fields [OF deliver_extends [of st n]] by simp
  have r1: "request_timeout (snd (request_containing_symbol call st)) = request_timeout st"
    by (cases call) (simp add: request_containing_symbol_def split: sum.split)
  have r2: "request_timeout (snd (request_referencing_symbols call st)) = request_timeout st"
    by (cases call) (simp add: request_referencing_symbols_def split: sum.split)
  have w: "\<exists>w b. Server_ready_wait (fst (ready_timeout_for e)) w b
               \<in> set (new_effects st (snd (snd (start_server e tr sched st))))"
    if ok: "fst (start_server e tr sched st) = None"
  proof (cases "server_ready (deliver_all
           (map snd (takeWhile (\<lambda>(t, n). t < fst (ready_timeout_for e)) sched)) st)")
    case True
    from start_server_signalled [OF ok True] obtain pre w where
      "effects (snd (snd (start_server e tr sched st))) =
           effects st @ pre @
             [Server_ready_wait (fst (ready_timeout_for e)) w True,
              Log Ready_and_available INFO,
              Log (Allowing_settling (settling_time e)) INFO,
              Sleep (settling_time e),
              Log Settling_complete INFO]"
      by blast
    then have "Server_ready_wait (fst (ready_timeout_for e)) w True
                 \<in> set (new_effects st (snd (snd (start_server e tr sched st))))"
      by (simp add: new_effects_def)
    then show ?thesis by blast
  next
    case False
    from start_server_forced [OF ok False] obtain pre where
      "effects (snd (snd (start_server e tr sched st))) =
           effects st @ pre @
             [Server_ready_wait (fst (ready_timeout_for e)) (fst (ready_timeout_for e)) False,
              Log (Readiness_timeout_reached (fst (ready_timeout_for e))) WARNING,
              Server_ready_set,
              Log (Allowing_basic_initialization (basic_settling_time e)) INFO,
              Sleep (basic_settling_time e),
              Log Basic_initialization_complete INFO]"
      by blast
    then have "Server_ready_wait (fst (ready_timeout_for e)) (fst (ready_timeout_for e)) False
                 \<in> set (new_effects st (snd (snd (start_server e tr sched st))))"
      by (simp add: new_effects_def)
    then show ?thesis by blast
  qed
  from a b c d i s n r1 r2 w show ?thesis by blast
qed

theorem timeout_budgets_witness:
  "is_ci macos_ci_env \<and> is_macos macos_ci_env \<and> is_ci ci_env \<and> \<not> is_macos ci_env \<and>
   \<not> is_ci local_env \<and>
   init local_env (Some ''/usr/bin/erlang_ls'') (Inr 0) ''/repo'' = Inr fresh_state \<and>
   fst (start_server local_env good_transport [] fresh_state) = None \<and>
   request_timeout_for ci_env < request_timeout_for local_env \<and>
   fst (ready_timeout_for local_env) < fst (ready_timeout_for ci_env) \<and>
   fst (ready_timeout_for ci_env) < fst (ready_timeout_for macos_ci_env) \<and>
   request_timeout fresh_state = Some (request_timeout_for local_env) \<and>
   (\<exists>w b. Server_ready_wait (fst (ready_timeout_for local_env)) w b
      \<in> set (new_effects fresh_state (snd (snd (start_server local_env good_transport [] fresh_state)))))"
proof -
  note t = timeout_budgets [where e = local_env and ?e1.0 = macos_ci_env and ?e2.0 = ci_env
      and ?e3.0 = local_env and which = "Some ''/usr/bin/erlang_ls''" and run = "Inr 0"
      and root_path = "''/repo''" and ?st0.0 = fresh_state and tr = good_transport
      and sched = "[]" and st = fresh_state]
  note u = timeout_budgets [where e = local_env and ?e1.0 = ci_env and ?e2.0 = local_env
      and ?e3.0 = local_env and which = "Some ''/usr/bin/erlang_ls''" and run = "Inr 0"
      and root_path = "''/repo''" and ?st0.0 = fresh_state and tr = good_transport
      and sched = "[]" and st = fresh_state]
  show ?thesis
    using t u is_ci_examples is_macos_examples fresh_state_init
      good_startup [of local_env "[]" fresh_state]
    by blast
qed



section \<open>The handshake inside startup\<close>

lemma await_readiness_prefix:
  "\<exists>zs. effects (snd (await_readiness e sched a)) = effects a @ zs \<and>
        Notify_initialized \<notin> set zs \<and> Completions_available_set \<notin> set zs"
proof -
  let ?a1 = "logger_log (Waiting_for_readiness (fst (ready_timeout_for e))
                (snd (ready_timeout_for e))) INFO a"
  have handler: "Notify_initialized \<notin> set ys \<and> Completions_available_set \<notin> set ys"
    if "list_all handler_effect ys" for ys
  proof -
    have "\<not> handler_effect Notify_initialized" "\<not> handler_effect Completions_available_set"
      by (simp_all add: handler_effect_def)
    with that show ?thesis by (auto simp: list_all_iff)
  qed
  show ?thesis
  proof (cases "server_ready (deliver_all
                  (map snd (takeWhile (\<lambda>(t, n). t < fst (ready_timeout_for e)) sched)) a)")
    case True
    from await_readiness_signalled [OF True] obtain st2 w where
      ext: "extends ?a1 st2" and
      res: "snd (await_readiness e sched a) =
             logger_log Settling_complete INFO
               (time_sleep (settling_time e)
                 (logger_log (Allowing_settling (settling_time e)) INFO
                   (logger_log Ready_and_available INFO
                     (emit (Server_ready_wait (fst (ready_timeout_for e)) w True) st2))))"
      by blast
    from ext obtain ys where ys: "effects st2 = effects ?a1 @ ys" "list_all handler_effect ys"
      unfolding extends_def by blast
    show ?thesis
      using res ys(1) handler [OF ys(2)] by simp
  next
    case False
    from await_readiness_forced [OF False] obtain st2 where
      ext: "extends ?a1 st2" and
      res: "snd (await_readiness e sched a) =
             logger_log Basic_initialization_complete INFO
               (time_sleep (basic_settling_time e)
                 (logger_log (Allowing_basic_initialization (basic_settling_time e)) INFO
                   (server_ready_set
                     (logger_log (Readiness_timeout_reached (fst (ready_timeout_for e))) WARNING
                       (emit (Server_ready_wait (fst (ready_timeout_for e))
                                (fst (ready_timeout_for e)) False) st2)))))"
      by blast
    from ext obtain ys where ys: "effects st2 = effects ?a1 @ ys" "list_all handler_effect ys"
      unfolding extends_def by blast
    show ?thesis
      using res ys(1) handler [OF ys(2)] by simp
  qed
qed



lemma handshake_sets_gate_effect:
  "\<exists>xs. effects (snd (handshake tr a)) = effects a @ xs \<and> Completions_available_set \<in> set xs"
proof -
  let ?a0 = "logger_log Sending_initialize_request INFO a"
  obtain x st1 where h: "handshake_try tr ?a0 = (x, st1)"
    by (cases "handshake_try tr ?a0")
  have q: "quiet a st1"
    using handshake_try_quiet [of a ?a0 tr] quiet_log [OF quiet_refl, of a] h by simp
  then obtain ys where ys: "effects st1 = effects a @ ys"
    unfolding quiet_def by blast
  show ?thesis
  proof (cases x)
    case (Some ex)
    with h ys show ?thesis by (simp add: handshake_def)
  next
    case None
    have "Completions_available_set \<in> set ys"
    proof -
      from None h have ok: "fst (handshake_try tr ?a0) = None" by simp
      have "\<exists>st3. st1 = logger_log Initialization_completed INFO (completions_available_set st3) \<and>
                  quiet a st3"
      proof (cases "initialize_returns tr")
        case (Inl ex)
        with ok show ?thesis by (simp add: handshake_try_def Let_def)
      next
        case (Inr r)
        let ?s1 = "emit (Send_initialize (initialize_params (repository_root_path ?a0))) ?a0"
        obtain y st2 where lc: "log_capabilities r ?s1 = (y, st2)"
          by (cases "log_capabilities r ?s1")
        have "quiet a ?s1"
          by (intro quiet_emit quiet_log quiet_refl) (simp add: quiet_effect_def)
        then have q2: "quiet a st2"
          using log_capabilities_quiet [of a ?s1 r] lc by simp
        have q3: "quiet a (emit Notify_initialized st2)"
          using q2 by (rule quiet_emit) (simp add: quiet_effect_def)
        from ok h Inr lc show ?thesis
          using q3
          by (cases y; cases "initialized_raises tr")
             (auto simp: handshake_try_def Let_def)
      qed
      then obtain st3 where st3: "st1 = logger_log Initialization_completed INFO
                                          (completions_available_set st3)" "quiet a st3"
        by blast
      from st3(2) obtain zs where "effects st3 = effects a @ zs"
        unfolding quiet_def by blast
      with st3(1) ys have "ys = zs @ [Completions_available_set, Log Initialization_completed INFO]"
        by simp
      then show ?thesis by simp
    qed
    with None h ys show ?thesis by (simp add: handshake_def)
  qed
qed

text \<open>
  C2. Once \<open>self.server.start()\<close> has returned, so that the initialize call is made, the
  \<open>completions_available\<close> event is set when \<open>_start_server\<close> ends, however the initialize
  call and the rest of the handshake turn out: the \<open>set()\<close> call is in the history startup
  added and the event is set in the state startup leaves, both when startup returns and
  when it propagates an exception. In particular, when \<open>initialize\<close> raises, that
  exception reaches the caller of startup and the event is set. The handshake itself
  leaves the event set in every case.
\<close>

theorem capabilities_gate:
  assumes "start_raises tr = None"
  shows "completions_available (snd (handshake tr a)) \<and>
         completions_available (snd (snd (start_server e tr sched st))) \<and>
         Completions_available_set \<in> set (new_effects st (snd (snd (start_server e tr sched st)))) \<and>
         (\<forall>ex. initialize_returns tr = Inl ex \<longrightarrow>
            fst (start_server e tr sched st) = Some ex \<and>
            completions_available (snd (snd (start_server e tr sched st))))"
proof -
  let ?st1 = "emit Server_start (logger_log Starting_server_process INFO st)"
  let ?st2 = "snd (handshake tr ?st1)"
  have g: "completions_available ?st2"
    by (rule handshake_gate)
  from handshake_sets_gate_effect [of tr ?st1] obtain xs where
    xs: "effects ?st2 = effects ?st1 @ xs" "Completions_available_set \<in> set xs"
    by blast
  from await_readiness_prefix [of e sched ?st2] obtain zs where
    zs: "effects (snd (await_readiness e sched ?st2)) = effects ?st2 @ zs"
    by blast
  from assms start_server_cases [of tr e sched st]
  have final: "snd (snd (start_server e tr sched st)) = ?st2 \<or>
               snd (snd (start_server e tr sched st)) = snd (await_readiness e sched ?st2)"
    by (elim disjE exE conjE) simp_all
  have gate: "completions_available (snd (snd (start_server e tr sched st)))"
    using final g await_readiness_fields [of e sched ?st2] by auto
  have eff: "Completions_available_set \<in> set (new_effects st (snd (snd (start_server e tr sched st))))"
    using final xs zs by (auto simp: new_effects_def)
  have err: "fst (start_server e tr sched st) = Some ex" if "initialize_returns tr = Inl ex" for ex
  proof -
    from that have "fst (handshake tr ?st1) = Some ex"
      by (simp add: handshake_raises)
    with assms start_server_cases [of tr e sched st] show ?thesis
      by (elim disjE exE conjE) simp_all
  qed
  show ?thesis
    using handshake_gate [of tr a] gate eff err by blast
qed

theorem capabilities_gate_witness:
  "start_raises failing_transport = None \<and>
   initialize_returns failing_transport = Inl (OtherException ''initialize failed'') \<and>
   fst (start_server local_env failing_transport [] fresh_state)
     = Some (OtherException ''initialize failed'') \<and>
   completions_available (snd (snd (start_server local_env failing_transport [] fresh_state))) \<and>
   start_raises good_transport = None \<and>
   completions_available (snd (snd (start_server local_env good_transport [] fresh_state)))"
proof -
  have f: "start_raises failing_transport = None"
    "initialize_returns failing_transport = Inl (OtherException ''initialize failed'')"
    by (simp_all add: failing_transport_def)
  have g: "start_raises good_transport = None"
    by (simp add: good_transport_def)
  show ?thesis
    using f g
      capabilities_gate [OF f(1), where e = local_env and sched = "[]" and st = fresh_state]
      capabilities_gate [OF g, where e = local_env and sched = "[]" and st = fresh_state]
    by blast
qed






section \<open>Readiness\<close>

lemma falls_Cons: "falls (a # bs) = 0 \<longleftrightarrow> (bs = [] \<or> ((a \<longrightarrow> hd bs) \<and> falls bs = 0))"
  by (cases bs) auto

lemma rises_all_set: "a \<Longrightarrow> falls (a # bs) = 0 \<Longrightarrow> rises (a # bs) = 0"
proof (induction bs arbitrary: a)
  case Nil
  then show ?case by simp
next
  case (Cons b bs)
  then show ?case by (cases b) auto
qed

lemma rises_le_one: "falls bs = 0 \<Longrightarrow> rises bs \<le> 1"
proof (induction bs rule: rises.induct)
  case (1 a b bs)
  show ?case
  proof (cases b)
    case True
    with 1 have "rises (b # bs) = 0"
      using rises_all_set [of b bs] by (auto split: if_splits)
    then show ?thesis by simp
  next
    case False
    with 1 show ?thesis by (auto split: if_splits)
  qed
qed simp_all

lemma deliver_trace_not_Nil: "deliver_trace ns st \<noteq> []"
  by (cases ns) simp_all

lemma deliver_trace_last: "last (deliver_trace ns st) = deliver_all ns st"
  by (induction ns arbitrary: st) (simp_all add: deliver_trace_not_Nil)

lemma hd_deliver_trace: "hd (deliver_trace ns st) = st"
  by (cases ns) simp_all

lemma falls_deliver_trace: "falls (map server_ready (deliver_trace ns st)) = 0"
proof (induction ns arbitrary: st)
  case Nil
  show ?case by simp
next
  case (Cons n ns)
  have "server_ready st \<longrightarrow> server_ready (deliver n st)"
    using extends_ready [OF deliver_extends] by blast
  moreover have "hd (map server_ready (deliver_trace ns (deliver n st))) = server_ready (deliver n st)"
    using deliver_trace_not_Nil [of ns "deliver n st"] hd_deliver_trace [of ns "deliver n st"]
    by (simp add: hd_map)
  ultimately show ?case
    using Cons [of "deliver n st"] by (simp add: falls_Cons)
qed

lemma falls_append:
  "xs \<noteq> [] \<Longrightarrow> ys \<noteq> [] \<Longrightarrow>
   falls (xs @ ys) = 0 \<longleftrightarrow> falls xs = 0 \<and> (last xs \<longrightarrow> hd ys) \<and> falls ys = 0"
proof (induction xs)
  case Nil
  then show ?case by simp
next
  case (Cons a xs)
  note IH = Cons.IH and prems = Cons.prems
  show ?case
  proof (cases xs)
    case Nil
    with prems show ?thesis by (cases ys) auto
  next
    case (Cons b bs)
    with IH prems show ?thesis by auto
  qed
qed

text \<open>
  C3. Take any notifications delivered to the handlers before startup, a run of
  \<open>_start_server\<close> with any transport and any notifications arriving during it, and any
  notifications delivered afterwards, in any order and with any repetitions. Along the
  states the supervisor goes through, \<open>server_ready\<close> goes from clear to set at most once
  and never from set to clear; the same holds for the notifications alone.
\<close>

theorem readiness_monotone:
  "rises (map server_ready (deliver_trace ns st)) \<le> 1 \<and>
   falls (map server_ready (deliver_trace ns st)) = 0 \<and>
   rises (map server_ready
            (deliver_trace ns st @
             deliver_trace ns' (snd (snd (start_server e tr sched (deliver_all ns st)))))) \<le> 1 \<and>
   falls (map server_ready
            (deliver_trace ns st @
             deliver_trace ns' (snd (snd (start_server e tr sched (deliver_all ns st)))))) = 0"
proof -
  let ?after = "snd (snd (start_server e tr sched (deliver_all ns st)))"
  have a: "falls (map server_ready (deliver_trace ns st)) = 0"
    by (rule falls_deliver_trace)
  have b: "falls (map server_ready (deliver_trace ns' ?after)) = 0"
    by (rule falls_deliver_trace)
  have step: "last (map server_ready (deliver_trace ns st))
                \<longrightarrow> hd (map server_ready (deliver_trace ns' ?after))"
    using start_server_fields [where st = "deliver_all ns st" and e = e and tr = tr and sched = sched]
      deliver_trace_not_Nil [of ns st] deliver_trace_not_Nil [of ns' ?after]
    by (simp add: last_map hd_map deliver_trace_last hd_deliver_trace)
  have c: "falls (map server_ready (deliver_trace ns st @ deliver_trace ns' ?after)) = 0"
    using a b step deliver_trace_not_Nil [of ns st] deliver_trace_not_Nil [of ns' ?after]
      falls_append [of "map server_ready (deliver_trace ns st)"
                       "map server_ready (deliver_trace ns' ?after)"]
    by simp
  from a c rises_le_one [OF a] rises_le_one [OF c] show ?thesis by simp
qed

theorem readiness_monotone_witness:
  "rises (map server_ready (deliver_trace
     [progress_end ''indexing'', log_message ''Started Erlang LS'', progress_end ''ready'',
      log_message ''server started''] fresh_state)) \<le> 1 \<and>
   falls (map server_ready (deliver_trace
     [progress_end ''indexing'', log_message ''Started Erlang LS'', progress_end ''ready'',
      log_message ''server started''] fresh_state)) = 0 \<and>
   map server_ready (deliver_trace
     [progress_end ''indexing'', log_message ''Started Erlang LS'', progress_end ''ready'',
      log_message ''server started''] fresh_state) = [False, False, True, True, True]"
proof -
  let ?ns = "[progress_end ''indexing'', log_message ''Started Erlang LS'', progress_end ''ready'',
      log_message ''server started'']"
  from readiness_monotone [where ns = ?ns and st = fresh_state]
  have "rises (map server_ready (deliver_trace ?ns fresh_state)) \<le> 1 \<and>
        falls (map server_ready (deliver_trace ?ns fresh_state)) = 0"
    by blast
  moreover have "map server_ready (deliver_trace ?ns fresh_state) = [False, False, True, True, True]"
    by code_simp
  ultimately show ?thesis by blast
qed

lemma deliver_log_message:
  "deliver (''window/logMessage'', params) st = snd (window_log_message params st)"
  by (simp add: deliver_def dispatch_def)

lemma deliver_progress:
  "deliver (''$/progress'', params) st = snd (check_server_ready params st)"
  by (simp add: deliver_def dispatch_def)

text \<open>A log message whose lower-cased text contains a lower-cased readiness phrase.\<close>

lemma window_log_message_match:
  assumes "map_of kv ''message'' = Some (JStr text)"
    and "signal \<in> set readiness_signals"
    and "str_in (lower signal) (lower text)"
  shows "window_log_message (JDict kv) st =
           (None,
            (let st2 = server_ready_set
                         (logger_log (Readiness_signal_detected text) INFO
                           (logger_log (Lsp_window_logMessage (JStr text)) INFO st))
             in if list_ex (\<lambda>word. str_in word (lower text))
                     [''error'', ''failed'', ''timeout'', ''crash'']
                then logger_log (Potential_issue text) WARNING st2
                else st2))"
proof -
  from assms(2,3) have "list_ex (\<lambda>signal. str_in (lower signal) (lower text)) readiness_signals"
    unfolding list_ex_iff by blast
  with assms(1) show ?thesis
    unfolding window_log_message_str by (simp add: Let_def)
qed

text \<open>A progress notification of kind "end" whose message holds a completion word.\<close>

lemma check_server_ready_match:
  assumes "map_of pkv ''value'' = Some (JDict vkv)"
    and "map_of vkv ''kind'' = Some (JStr ''end'')"
    and "map_of vkv ''message'' = Some (JStr message)"
    and "word \<in> set [''initialized'', ''ready'', ''complete'']"
    and "str_in word (lower message)"
  shows "check_server_ready (JDict pkv) st =
           (None,
            if server_ready st then logger_log Initialization_progress_completed INFO st
            else server_ready_set (logger_log Initialization_progress_completed INFO st))"
proof -
  from assms(4,5) have "list_ex (\<lambda>word. str_in word (lower message))
                          [''initialized'', ''ready'', ''complete'']"
    unfolding list_ex_iff by blast
  with assms(1,2,3) show ?thesis
    unfolding check_server_ready_def dict_get_def by (simp add: Let_def)
qed

lemma check_server_ready_when_set:
  assumes "server_ready st"
  shows "server_ready (snd (check_server_ready params st)) \<and>
         Server_ready_set \<notin> set (new_effects st (snd (check_server_ready params st)))"
proof -
  have "snd (check_server_ready params st) = st \<or>
        snd (check_server_ready params st) = logger_log Initialization_progress_completed INFO st"
    using assms unfolding check_server_ready_def dict_get_def
    by (simp add: Let_def split: json.split option.split)
  then show ?thesis
    using assms by (auto simp: new_effects_def)
qed

text \<open>
  C6. A \<open>window/logMessage\<close> notification whose message is a string that, lower-cased,
  contains a lower-cased readiness phrase leaves \<open>server_ready\<close> set, by itself: no
  progress notification is involved. A \<open>$/progress\<close> notification whose value has kind
  "end" and a message that, lower-cased, contains "initialized", "ready" or "complete"
  leaves \<open>server_ready\<close> set, and calls \<open>server_ready.set()\<close> only if the event was clear:
  beyond its log line it adds the \<open>set()\<close> call exactly when the event was clear. When the
  event is already set, for instance by a matching log message just before, any
  progress notification leaves it set and makes no \<open>set()\<close> call.
\<close>

theorem readiness_channels:
  "(map_of kv ''message'' = Some (JStr message_text) \<and> signal \<in> set readiness_signals \<and>
    str_in (lower signal) (lower message_text) \<longrightarrow>
      server_ready (deliver (''window/logMessage'', JDict kv) st) \<and>
      server_ready (deliver (''$/progress'', params)
                      (deliver (''window/logMessage'', JDict kv) st)) \<and>
      Server_ready_set \<notin> set (new_effects (deliver (''window/logMessage'', JDict kv) st)
                                (deliver (''$/progress'', params)
                                   (deliver (''window/logMessage'', JDict kv) st)))) \<and>
   (map_of pkv ''value'' = Some (JDict vkv) \<and> map_of vkv ''kind'' = Some (JStr ''end'') \<and>
    map_of vkv ''message'' = Some (JStr message) \<and>
    word \<in> set [''initialized'', ''ready'', ''complete''] \<and> str_in word (lower message) \<longrightarrow>
      server_ready (deliver (''$/progress'', JDict pkv) st) \<and>
      new_effects st (deliver (''$/progress'', JDict pkv) st) =
        (if server_ready st then [Log Initialization_progress_completed INFO]
         else [Log Initialization_progress_completed INFO, Server_ready_set])) \<and>
   (server_ready st \<longrightarrow>
      server_ready (deliver (''$/progress'', params) st) \<and>
      Server_ready_set \<notin> set (new_effects st (deliver (''$/progress'', params) st)))"
proof -
  have primary: "server_ready (deliver (''window/logMessage'', JDict kv) st)"
    if "map_of kv ''message'' = Some (JStr message_text)" "signal \<in> set readiness_signals"
       "str_in (lower signal) (lower message_text)"
    using window_log_message_match [OF that, of st]
    by (simp add: deliver_log_message Let_def)
  have secondary: "server_ready (deliver (''$/progress'', JDict pkv) st) \<and>
      new_effects st (deliver (''$/progress'', JDict pkv) st) =
        (if server_ready st then [Log Initialization_progress_completed INFO]
         else [Log Initialization_progress_completed INFO, Server_ready_set])"
    if "map_of pkv ''value'' = Some (JDict vkv)" "map_of vkv ''kind'' = Some (JStr ''end'')"
       "map_of vkv ''message'' = Some (JStr message)"
       "word \<in> set [''initialized'', ''ready'', ''complete'']" "str_in word (lower message)"
    using check_server_ready_match [OF that, of st]
    by (simp add: deliver_progress new_effects_def)
  have after: "server_ready (deliver (''$/progress'', params) a) \<and>
      Server_ready_set \<notin> set (new_effects a (deliver (''$/progress'', params) a))"
    if "server_ready a" for a
    using check_server_ready_when_set [OF that, of params] by (simp add: deliver_progress)
  from primary secondary after show ?thesis by blast
qed

theorem readiness_channels_witness:
  "map_of [(''type'', JNum 3), (''message'', JStr ''Server Started and READY to serve requests'')]
     ''message'' = Some (JStr ''Server Started and READY to serve requests'') \<and>
   ''server started'' \<in> set readiness_signals \<and>
   str_in (lower ''server started'') (lower ''Server Started and READY to serve requests'') \<and>
   server_ready (deliver (log_message ''Server Started and READY to serve requests'') fresh_state) \<and>
   Server_ready_set \<notin> set (new_effects
       (deliver (log_message ''Server Started and READY to serve requests'') fresh_state)
       (deliver (progress_end ''Indexing complete'')
          (deliver (log_message ''Server Started and READY to serve requests'') fresh_state))) \<and>
   map_of [(''token'', JStr ''init''),
           (''value'', JDict [(''kind'', JStr ''end''), (''message'', JStr ''Indexing complete'')])]
     ''value'' = Some (JDict [(''kind'', JStr ''end''), (''message'', JStr ''Indexing complete'')]) \<and>
   ''complete'' \<in> set [''initialized'', ''ready'', ''complete''] \<and>
   str_in ''complete'' (lower ''Indexing complete'') \<and>
   server_ready (deliver (progress_end ''Indexing complete'') fresh_state) \<and>
   new_effects fresh_state (deliver (progress_end ''Indexing complete'') fresh_state)
     = [Log Initialization_progress_completed INFO, Server_ready_set]"
proof -
  let ?text = "''Server Started and READY to serve requests''"
  let ?kv = "[(''type'', JNum 3), (''message'', JStr ?text)]"
  let ?vkv = "[(''kind'', JStr ''end''), (''message'', JStr ''Indexing complete'')]"
  let ?pkv = "[(''token'', JStr ''init''), (''value'', JDict ?vkv)]"
  have h1: "map_of ?kv ''message'' = Some (JStr ?text)"
    by simp
  have h2: "''server started'' \<in> set readiness_signals"
    by (simp add: readiness_signals_def)
  have h3: "str_in (lower ''server started'') (lower ?text)"
    by code_simp
  have h4: "map_of ?pkv ''value'' = Some (JDict ?vkv)" "map_of ?vkv ''kind'' = Some (JStr ''end'')"
    "map_of ?vkv ''message'' = Some (JStr ''Indexing complete'')"
    by simp_all
  have h5: "''complete'' \<in> set [''initialized'', ''ready'', ''complete'']"
    by simp
  have h6: "str_in ''complete'' (lower ''Indexing complete'')"
    by code_simp
  have h7: "\<not> server_ready fresh_state"
    by (simp add: fresh_state_def)
  note t = readiness_channels [where kv = ?kv and message_text = ?text and signal = "''server started''"
      and st = fresh_state and params = "JDict ?pkv" and pkv = ?pkv and vkv = ?vkv
      and message = "''Indexing complete''" and word = "''complete''"]
  from t h1 h2 h3 h4 h5 h6 h7 show ?thesis
    by (simp add: log_message_def progress_end_def)
qed

text \<open>
  C10. The primary channel matches by substring containment on the lower-cased text: a
  \<open>window/logMessage\<close> notification whose message is a string that, lower-cased, holds a
  lower-cased readiness phrase anywhere, with anything before and after it (as
  "uninitialized" holds "initialized"), leaves \<open>server_ready\<close> set. If the lower-cased
  text also holds "error", "failed", "timeout" or "crash", the handler does both: it logs
  the message, logs the readiness signal, calls \<open>server_ready.set()\<close> and then logs the
  potential issue at WARNING, and \<open>server_ready\<close> is set afterwards.
\<close>

theorem readiness_substring:
  "(map_of kv ''message'' = Some (JStr message_text) \<and> signal \<in> set readiness_signals \<and>
    lower message_text = before @ lower signal @ after \<longrightarrow>
      server_ready (deliver (''window/logMessage'', JDict kv) st)) \<and>
   (map_of kv ''message'' = Some (JStr message_text) \<and> signal \<in> set readiness_signals \<and>
    lower message_text = before @ lower signal @ after \<and>
    word \<in> set [''error'', ''failed'', ''timeout'', ''crash''] \<and>
    lower message_text = before' @ word @ after' \<longrightarrow>
      server_ready (deliver (''window/logMessage'', JDict kv) st) \<and>
      new_effects st (deliver (''window/logMessage'', JDict kv) st) =
        [Log (Lsp_window_logMessage (JStr message_text)) INFO,
         Log (Readiness_signal_detected message_text) INFO,
         Server_ready_set,
         Log (Potential_issue message_text) WARNING])"
proof -
  have ready: "server_ready (deliver (''window/logMessage'', JDict kv) st)"
    if m: "map_of kv ''message'' = Some (JStr message_text)"
      and s: "signal \<in> set readiness_signals"
      and c: "lower message_text = before @ lower signal @ after"
  proof -
    from c have "str_in (lower signal) (lower message_text)"
      unfolding str_in_def sublist_def by blast
    from window_log_message_match [OF m s this, of st] show ?thesis
      by (simp add: deliver_log_message Let_def)
  qed
  have both: "new_effects st (deliver (''window/logMessage'', JDict kv) st) =
        [Log (Lsp_window_logMessage (JStr message_text)) INFO,
         Log (Readiness_signal_detected message_text) INFO,
         Server_ready_set,
         Log (Potential_issue message_text) WARNING]"
    if m: "map_of kv ''message'' = Some (JStr message_text)"
      and s: "signal \<in> set readiness_signals"
      and c: "lower message_text = before @ lower signal @ after"
      and w: "word \<in> set [''error'', ''failed'', ''timeout'', ''crash'']"
      and f: "lower message_text = before' @ word @ after'"
  proof -
    from c have p: "str_in (lower signal) (lower message_text)"
      unfolding str_in_def sublist_def by blast
    from f have "str_in word (lower message_text)"
      unfolding str_in_def sublist_def by blast
    with w have "list_ex (\<lambda>word. str_in word (lower message_text))
                   [''error'', ''failed'', ''timeout'', ''crash'']"
      unfolding list_ex_iff by blast
    with window_log_message_match [OF m s p, of st] show ?thesis
      by (simp add: deliver_log_message Let_def new_effects_def)
  qed
  from ready both show ?thesis by blast
qed

theorem readiness_substring_witness:
  "map_of [(''type'', JNum 1), (''message'', JStr ''Variable is Uninitialized: ERROR'')] ''message''
     = Some (JStr ''Variable is Uninitialized: ERROR'') \<and>
   ''initialized'' \<in> set readiness_signals \<and>
   lower ''Variable is Uninitialized: ERROR''
     = ''variable is un'' @ lower ''initialized'' @ '': error'' \<and>
   ''error'' \<in> set [''error'', ''failed'', ''timeout'', ''crash''] \<and>
   lower ''Variable is Uninitialized: ERROR'' = ''variable is uninitialized: '' @ ''error'' @ [] \<and>
   server_ready (deliver
     (''window/logMessage'',
      JDict [(''type'', JNum 1), (''message'', JStr ''Variable is Uninitialized: ERROR'')])
     fresh_state) \<and>
   new_effects fresh_state (deliver
     (''window/logMessage'',
      JDict [(''type'', JNum 1), (''message'', JStr ''Variable is Uninitialized: ERROR'')])
     fresh_state) =
     [Log (Lsp_window_logMessage (JStr ''Variable is Uninitialized: ERROR'')) INFO,
      Log (Readiness_signal_detected ''Variable is Uninitialized: ERROR'') INFO,
      Server_ready_set,
      Log (Potential_issue ''Variable is Uninitialized: ERROR'') WARNING]"
proof -
  let ?text = "''Variable is Uninitialized: ERROR''"
  let ?kv = "[(''type'', JNum 1), (''message'', JStr ?text)]"
  have h1: "map_of ?kv ''message'' = Some (JStr ?text)"
    by simp
  have h2: "''initialized'' \<in> set readiness_signals"
    by (simp add: readiness_signals_def)
  have h3: "lower ?text = ''variable is un'' @ lower ''initialized'' @ '': error''"
    by code_simp
  have h4: "''error'' \<in> set [''error'', ''failed'', ''timeout'', ''crash'']"
    by simp
  have h5: "lower ?text = ''variable is uninitialized: '' @ ''error'' @ []"
    by code_simp
  note t = readiness_substring [where kv = ?kv and message_text = ?text
      and signal = "''initialized''" and before = "''variable is un''" and after = "'': error''"
      and word = "''error''" and before' = "''variable is uninitialized: ''" and after' = "[]"
      and st = fresh_state]
  from t h1 h2 h3 h4 h5 show ?thesis by blast
qed

section \<open>The watchdog\<close>

text \<open>
  What \<open>_force_kill_if_stuck\<close> adds to the history after \<open>process.terminate()\<close>: the log
  line of the outer \<open>except\<close>, unless the inner \<open>except psutil.NoSuchProcess\<close> caught the
  exception.
\<close>

lemma terminate_then_kill_effects:
  "effects (snd (terminate_then_kill w pid a)) =
     effects a @ Terminate pid #
       (case terminate_raises w of
          Some ex \<Rightarrow> []
        | None \<Rightarrow> Sleep 2 # (case is_running w of Inr True \<Rightarrow> [Kill pid] | _ \<Rightarrow> []))"
  unfolding terminate_then_kill_def
  by (simp add: Let_def split: option.split sum.split bool.split)

lemma force_kill_if_stuck_low_cpu:
  assumes "server_process w = Some pid" "pid_exists w = Inr True" "process_lookup w = None"
    "cpu_percent w = Inr cpu" "cpu < 1"
  shows "\<exists>errors. new_effects st (snd (force_kill_if_stuck w st)) =
           [Cpu_percent pid, Log (Cpu_usage pid cpu) INFO, Log (Force_killing pid) WARNING,
            Terminate pid] @
           (case terminate_raises w of
              Some ex \<Rightarrow> []
            | None \<Rightarrow> Sleep 2 # (case is_running w of Inr True \<Rightarrow> [Kill pid] | _ \<Rightarrow> [])) @
           errors \<and>
           list_all (\<lambda>x. \<exists>ex. x = Log (Error_in_force_kill_check ex) DEBUG) errors"
proof -
  let ?a = "logger_log (Force_killing pid) WARNING
              (logger_log (Cpu_usage pid cpu) INFO (emit (Cpu_percent pid) st))"
  obtain x st4 where t: "terminate_then_kill w pid ?a = (x, st4)"
    by (cases "terminate_then_kill w pid ?a")
  have e4: "effects st4 = effects ?a @ Terminate pid #
       (case terminate_raises w of
          Some ex \<Rightarrow> []
        | None \<Rightarrow> Sleep 2 # (case is_running w of Inr True \<Rightarrow> [Kill pid] | _ \<Rightarrow> []))"
    using terminate_then_kill_effects [of w pid ?a] t by simp
  have body: "force_kill_body w st =
                (case x of None \<Rightarrow> (None, st4)
                 | Some ex \<Rightarrow> if is_NoSuchProcess ex then (None, st4) else (Some ex, st4))"
    using assms t by (simp add: force_kill_body_def Let_def split: option.split)
  have "snd (force_kill_if_stuck w st) = st4 \<or>
        (\<exists>ex. snd (force_kill_if_stuck w st) = logger_log (Error_in_force_kill_check ex) DEBUG st4)"
    unfolding force_kill_if_stuck_def body by (auto split: option.split)
  then show ?thesis
  proof
    assume "snd (force_kill_if_stuck w st) = st4"
    with e4 show ?thesis
      by (intro exI [of _ "[]"]) (simp add: new_effects_def)
  next
    assume "\<exists>ex. snd (force_kill_if_stuck w st) = logger_log (Error_in_force_kill_check ex) DEBUG st4"
    then obtain ex where
      "snd (force_kill_if_stuck w st) = logger_log (Error_in_force_kill_check ex) DEBUG st4"
      by blast
    with e4 show ?thesis
      by (intro exI [of _ "[Log (Error_in_force_kill_check ex) DEBUG]"]) (simp add: new_effects_def)
  qed
qed

text \<open>
  C9. \<open>_force_kill_if_stuck\<close> hands no exception to its caller, whatever the process
  primitives return or raise and whether or not there is a process. When the server has
  a process whose pid exists, whose \<open>psutil.Process\<close> can be built and whose sampled CPU
  utilisation is below 1, it samples, logs, and calls \<open>terminate()\<close>; if \<open>terminate()\<close>
  returns, it sleeps 2 seconds and then calls \<open>kill()\<close> exactly when \<open>is_running()\<close>
  returns \<open>True\<close>; a \<open>kill()\<close> is never called after a \<open>terminate()\<close> that raised. After these
  calls the history holds at most log lines of the swallowed error.
\<close>

theorem force_kill_if_stuck_contract:
  "fst (force_kill_if_stuck w st) = None \<and>
   (server_process w = Some pid \<and> pid_exists w = Inr True \<and> process_lookup w = None \<and>
    cpu_percent w = Inr cpu \<and> cpu < 1 \<longrightarrow>
      (\<exists>post.
         new_effects st (snd (force_kill_if_stuck w st)) =
           [Cpu_percent pid, Log (Cpu_usage pid cpu) INFO, Log (Force_killing pid) WARNING,
            Terminate pid] @ post \<and>
         (terminate_raises w = None \<longrightarrow>
            (\<exists>rest. post = Sleep 2 # rest \<and>
                    (Kill pid \<in> set rest) = (is_running w = Inr True) \<and>
                    (is_running w = Inr True \<longrightarrow> hd rest = Kill pid))) \<and>
         (Kill pid \<in> set post \<longrightarrow> terminate_raises w = None \<and> is_running w = Inr True)))"
proof -
  have never: "fst (force_kill_if_stuck w st) = None"
    unfolding force_kill_if_stuck_def by (simp split: prod.split option.split)
  have stuck: "\<exists>post.
         new_effects st (snd (force_kill_if_stuck w st)) =
           [Cpu_percent pid, Log (Cpu_usage pid cpu) INFO, Log (Force_killing pid) WARNING,
            Terminate pid] @ post \<and>
         (terminate_raises w = None \<longrightarrow>
            (\<exists>rest. post = Sleep 2 # rest \<and>
                    (Kill pid \<in> set rest) = (is_running w = Inr True) \<and>
                    (is_running w = Inr True \<longrightarrow> hd rest = Kill pid))) \<and>
         (Kill pid \<in> set post \<longrightarrow> terminate_raises w = None \<and> is_running w = Inr True)"
    if h: "server_process w = Some pid" "pid_exists w = Inr True" "process_lookup w = None"
      "cpu_percent w = Inr cpu" "cpu < 1"
  proof -
    let ?calls = "case terminate_raises w of
                    Some ex \<Rightarrow> []
                  | None \<Rightarrow> Sleep 2 # (case is_running w of Inr True \<Rightarrow> [Kill pid] | _ \<Rightarrow> [])"
    from force_kill_if_stuck_low_cpu [OF h, of st] obtain errors where
      new: "new_effects st (snd (force_kill_if_stuck w st)) =
           [Cpu_percent pid, Log (Cpu_usage pid cpu) INFO, Log (Force_killing pid) WARNING,
            Terminate pid] @ ?calls @ errors" and
      errors: "list_all (\<lambda>x. \<exists>ex. x = Log (Error_in_force_kill_check ex) DEBUG) errors"
      by blast
    have no_kill: "Kill pid \<notin> set errors"
      using errors by (auto simp: list_all_iff)
    have a: "\<exists>rest. ?calls @ errors = Sleep 2 # rest \<and>
                    (Kill pid \<in> set rest) = (is_running w = Inr True) \<and>
                    (is_running w = Inr True \<longrightarrow> hd rest = Kill pid)"
      if "terminate_raises w = None"
    proof (cases "is_running w")
      case (Inl ex)
      with that no_kill show ?thesis by simp
    next
      case (Inr running)
      with that no_kill show ?thesis by (cases running) simp_all
    qed
    have b: "terminate_raises w = None \<and> is_running w = Inr True"
      if "Kill pid \<in> set (?calls @ errors)"
    proof (cases "terminate_raises w")
      case (Some ex)
      with that no_kill show ?thesis by simp
    next
      case None
      show ?thesis
      proof (cases "is_running w")
        case (Inl ex)
        with that None no_kill show ?thesis by simp
      next
        case (Inr running)
        with that None no_kill show ?thesis by (cases running) simp_all
      qed
    qed
    show ?thesis
    proof (rule exI [of _ "?calls @ errors"], intro conjI impI)
      show "new_effects st (snd (force_kill_if_stuck w st)) =
              [Cpu_percent pid, Log (Cpu_usage pid cpu) INFO, Log (Force_killing pid) WARNING,
               Terminate pid] @ ?calls @ errors"
        by (rule new)
    next
      assume "terminate_raises w = None"
      then show "\<exists>rest. ?calls @ errors = Sleep 2 # rest \<and>
                    (Kill pid \<in> set rest) = (is_running w = Inr True) \<and>
                    (is_running w = Inr True \<longrightarrow> hd rest = Kill pid)"
        by (rule a)
    next
      assume "Kill pid \<in> set (?calls @ errors)"
      then show "terminate_raises w = None" "is_running w = Inr True"
        using b by blast+
    qed
  qed
  from never stuck show ?thesis by blast
qed

theorem force_kill_if_stuck_contract_witness:
  "server_process stuck_process = Some 4242 \<and> pid_exists stuck_process = Inr True \<and>
   process_lookup stuck_process = None \<and> cpu_percent stuck_process = Inr (1 / 5) \<and>
   (1 / 5 :: rat) < 1 \<and> terminate_raises stuck_process = None \<and>
   is_running stuck_process = Inr True \<and>
   fst (force_kill_if_stuck stuck_process fresh_state) = None \<and>
   new_effects fresh_state (snd (force_kill_if_stuck stuck_process fresh_state)) =
     [Cpu_percent 4242, Log (Cpu_usage 4242 (1 / 5)) INFO, Log (Force_killing 4242) WARNING,
      Terminate 4242, Sleep 2, Kill 4242]"
proof -
  have h: "server_process stuck_process = Some 4242" "pid_exists stuck_process = Inr True"
    "process_lookup stuck_process = None" "cpu_percent stuck_process = Inr (1 / 5)"
    "(1 / 5 :: rat) < 1" "terminate_raises stuck_process = None"
    "is_running stuck_process = Inr True"
    by (simp_all add: stuck_process_def)
  note t = force_kill_if_stuck_contract [where w = stuck_process and st = fresh_state
      and pid = 4242 and cpu = "1 / 5"]
  have "new_effects fresh_state (snd (force_kill_if_stuck stuck_process fresh_state)) =
     [Cpu_percent 4242, Log (Cpu_usage 4242 (1 / 5)) INFO, Log (Force_killing 4242) WARNING,
      Terminate 4242, Sleep 2, Kill 4242]"
    by (simp add: force_kill_if_stuck_def force_kill_body_def terminate_then_kill_def
          stuck_process_def fresh_state_def new_effects_def time_sleep_def logger_log_def
          emit_def Let_def)
  with t h show ?thesis by blast
qed

end
